theory Spec2Isabelle
  imports Complex_Main
begin

section \<open>Element type\<close>

text \<open>
  The kernels are templates over the element type \<open>T\<close> (\<open>float\<close>, \<open>double\<close>, \<open>__half\<close>).
  Rounding and overflow are not modelled: a finite value is an exact integer.
  The infinities and NaNs of IEEE-754 are collapsed into the single value \<open>NonFinite\<close>;
  as a class they absorb addition and multiplication (in particular \<open>0 * inf = NaN\<close>).
\<close>

datatype elem = Finite int | NonFinite

instantiation elem :: "{comm_monoid_add, times}"
begin

fun plus_elem :: "elem \<Rightarrow> elem \<Rightarrow> elem" where
  "plus_elem (Finite a) (Finite b) = Finite (a + b)"
| "plus_elem _ _ = NonFinite"

fun times_elem :: "elem \<Rightarrow> elem \<Rightarrow> elem" where
  "times_elem (Finite a) (Finite b) = Finite (a * b)"
| "times_elem _ _ = NonFinite"

definition zero_elem :: elem where
  "zero_elem = Finite 0"

instance
proof
  fix x y z :: elem
  show "x + y = y + x"
  proof (cases x)
    case (Finite i)
    then show ?thesis by (cases y) (simp_all add: add.commute)
  next
    case NonFinite
    then show ?thesis by (cases y) simp_all
  qed
  show "0 + x = x"
    unfolding zero_elem_def by (cases x) simp_all
  show "x + y + z = x + (y + z)"
  proof (cases x)
    case (Finite i)
    then show ?thesis by (cases y; cases z; simp)
  next
    case NonFinite
    then show ?thesis by simp
  qed
qed

end

text \<open>The element types the launch functions are instantiated for, and \<open>sizeof(T)\<close>.\<close>

datatype dtype = Half | Float | Double

fun sizeof_T :: "dtype \<Rightarrow> nat" where
  "sizeof_T Half = 2"
| "sizeof_T Float = 4"
| "sizeof_T Double = 8"

text \<open>\<open>NUM_VECTOR_UNITS = sizeof(int4) / sizeof(T)\<close>, with \<open>sizeof(int4) = 16\<close>.\<close>

definition NUM_VECTOR_UNITS :: "dtype \<Rightarrow> nat" where
  "NUM_VECTOR_UNITS T = 16 div sizeof_T T"

section \<open>Tile parameters\<close>

text \<open>The compile-time constants with which both launch functions instantiate their kernel.\<close>

definition BLOCK_TILE_SIZE_X :: nat where "BLOCK_TILE_SIZE_X = 128"
definition BLOCK_TILE_SIZE_Y :: nat where "BLOCK_TILE_SIZE_Y = 128"
definition BLOCK_TILE_SIZE_K :: nat where "BLOCK_TILE_SIZE_K = 16"
definition WARP_TILE_SIZE_X :: nat where "WARP_TILE_SIZE_X = 32"
definition WARP_TILE_SIZE_Y :: nat where "WARP_TILE_SIZE_Y = 64"
definition NUM_WARPS_X :: nat where "NUM_WARPS_X = BLOCK_TILE_SIZE_X div WARP_TILE_SIZE_X"
definition NUM_WARPS_Y :: nat where "NUM_WARPS_Y = BLOCK_TILE_SIZE_Y div WARP_TILE_SIZE_Y"

text \<open>Kernel v06 only.\<close>

definition THREAD_TILE_SIZE_X :: nat where "THREAD_TILE_SIZE_X = 8"
definition THREAD_TILE_SIZE_Y :: nat where "THREAD_TILE_SIZE_Y = 8"
definition NUM_THREADS_PER_WARP_X :: nat where "NUM_THREADS_PER_WARP_X = 4"
definition NUM_THREADS_PER_WARP_Y :: nat where "NUM_THREADS_PER_WARP_Y = 8"
definition NUM_THREAD_TILES_PER_WARP_X :: nat where
  "NUM_THREAD_TILES_PER_WARP_X = WARP_TILE_SIZE_X div (THREAD_TILE_SIZE_X * NUM_THREADS_PER_WARP_X)"
definition NUM_THREAD_TILES_PER_WARP_Y :: nat where
  "NUM_THREAD_TILES_PER_WARP_Y = WARP_TILE_SIZE_Y div (THREAD_TILE_SIZE_Y * NUM_THREADS_PER_WARP_Y)"
definition NUM_THREADS_X :: nat where "NUM_THREADS_X = NUM_WARPS_X * NUM_THREADS_PER_WARP_X"
definition NUM_THREADS_Y :: nat where "NUM_THREADS_Y = NUM_WARPS_Y * NUM_THREADS_PER_WARP_Y"
definition VECTORIZED_THREAD_TILE_SIZE_X :: "dtype \<Rightarrow> nat" where
  "VECTORIZED_THREAD_TILE_SIZE_X T = THREAD_TILE_SIZE_X div NUM_VECTOR_UNITS T"

text \<open>Kernel v07 only.\<close>

definition WMMA_TILE_SIZE_X :: nat where "WMMA_TILE_SIZE_X = 16"
definition WMMA_TILE_SIZE_Y :: nat where "WMMA_TILE_SIZE_Y = 16"
definition WMMA_TILE_SIZE_K :: nat where "WMMA_TILE_SIZE_K = 16"
definition NUM_WMMA_TILES_X :: nat where "NUM_WMMA_TILES_X = WARP_TILE_SIZE_X div WMMA_TILE_SIZE_X"
definition NUM_WMMA_TILES_Y :: nat where "NUM_WMMA_TILES_Y = WARP_TILE_SIZE_Y div WMMA_TILE_SIZE_Y"
definition NUM_WMMA_TILES_K :: nat where "NUM_WMMA_TILES_K = BLOCK_TILE_SIZE_K div WMMA_TILE_SIZE_K"

section \<open>Global memory\<close>

text \<open>
  A buffer is a function from the element offset (relative to its base pointer) to the
  element stored there. Offsets are \<open>size_t\<close> values; they are modelled as naturals, since
  no 64-bit index expression of the kernels wraps for a buffer that fits the address space.

  The state of a kernel run is the content of \<open>C\<close> together with a record of every
  element of \<open>C\<close> that was loaded and stored (the row and column the kernel computed
  for the element, and the offset it addressed), and a flag that is raised when a vector
  access was attempted at an address that is not aligned for it. The base pointer of \<open>C\<close>
  is taken to be aligned for every vector type, as a device allocation is.
\<close>

type_synonym buffer = "nat \<Rightarrow> elem"

record gpu_state =
  C_mem :: buffer
  C_reads :: "(nat \<times> nat \<times> nat) set"
  C_writes :: "(nat \<times> nat \<times> nat) set"
  misaligned :: bool

definition initial_state :: "buffer \<Rightarrow> gpu_state" where
  "initial_state C = \<lparr>C_mem = C, C_reads = {}, C_writes = {}, misaligned = False\<rparr>"

section \<open>Shared-memory staging loader\<close>

text \<open>Element \<open>(i, p)\<close> of \<open>A\<close> (column-major, stride \<open>lda\<close>) and \<open>(p, j)\<close> of \<open>B\<close>
  (row-major, stride \<open>ldb\<close>), as section 3 of the specification lays them out.\<close>

definition A_elem :: "buffer \<Rightarrow> nat \<Rightarrow> nat \<Rightarrow> nat \<Rightarrow> elem" where
  "A_elem A lda i p = A (p * lda + i)"

definition B_elem :: "buffer \<Rightarrow> nat \<Rightarrow> nat \<Rightarrow> nat \<Rightarrow> elem" where
  "B_elem B ldb p j = B (p * ldb + j)"

text \<open>Modelled from the spec: \<open>load_data_to_shared_memory_transposed_vectorized\<close> is defined in
  \<open>cuda_gemm_utils.cuh\<close>, which is not among the sources. Following section 4.1, it fills the
  two shared staging buffers of block \<open>(bx, by)\<close> for reduction tile \<open>t\<close>: the sub-tile of
  \<open>A\<close> transposed (indexed reduction step first, block row second) and the sub-tile of \<open>B\<close>
  in its natural orientation, with zeros wherever the tile reaches past \<open>m\<close>, \<open>n\<close> or \<open>k\<close>.
  The skew columns of the v07 buffers are never read and are left out.\<close>

definition load_data_to_shared_memory_transposed_vectorized ::
  "nat \<Rightarrow> nat \<Rightarrow> nat \<Rightarrow> buffer \<Rightarrow> nat \<Rightarrow> buffer \<Rightarrow> nat \<Rightarrow> nat \<Rightarrow> nat \<Rightarrow> nat
    \<Rightarrow> (nat \<Rightarrow> nat \<Rightarrow> elem) \<times> (nat \<Rightarrow> nat \<Rightarrow> elem)" where
  "load_data_to_shared_memory_transposed_vectorized m n k A lda B ldb by bx t =
    (\<lambda>kk r. if by * BLOCK_TILE_SIZE_Y + r < m \<and> t * BLOCK_TILE_SIZE_K + kk < k
             then A_elem A lda (by * BLOCK_TILE_SIZE_Y + r) (t * BLOCK_TILE_SIZE_K + kk) else 0,
     \<lambda>kk c. if t * BLOCK_TILE_SIZE_K + kk < k \<and> bx * BLOCK_TILE_SIZE_X + c < n
             then B_elem B ldb (t * BLOCK_TILE_SIZE_K + kk) (bx * BLOCK_TILE_SIZE_X + c) else 0)"

text \<open>
  Both kernels end a reduction tile with \<open>__syncwarp()\<close> only, and the next call of the
  loader follows with no block-wide barrier before it. A warp that is done with tile \<open>t\<close>
  therefore refills the staging buffers with tile \<open>t + 1\<close> while slower warps of the block
  are still reading tile \<open>t\<close>; the barrier after the load keeps it from running further
  ahead. What a worker reads is decided by the interleaving of the warps, which the source
  does not fix: an \<open>interleaving\<close> says, for the worker \<open>w\<close> of block \<open>(bx, by)\<close>, the tile
  \<open>t\<close>, the reduction step \<open>kk\<close> and the entry \<open>i\<close> of the row of the buffer, whether the
  entry had already been refilled when the worker read it.
\<close>

record interleaving =
  A_refilled :: "nat \<Rightarrow> nat \<Rightarrow> nat \<Rightarrow> nat \<Rightarrow> nat \<Rightarrow> nat \<Rightarrow> bool"
  B_refilled :: "nat \<Rightarrow> nat \<Rightarrow> nat \<Rightarrow> nat \<Rightarrow> nat \<Rightarrow> nat \<Rightarrow> bool"

text \<open>The interleaving in which every warp of a block is done with a tile before any
  warp of the block loads the next one.\<close>

definition in_order :: interleaving where
  "in_order = \<lparr>A_refilled = (\<lambda>by bx w t kk i. False), B_refilled = (\<lambda>by bx w t kk i. False)\<rparr>"

section \<open>Thread and warp indices\<close>

text \<open>Both launches use a one-dimensional block, so \<open>thread_linear_idx = threadIdx.x\<close>.\<close>

definition warp_linear_idx :: "nat \<Rightarrow> nat" where
  "warp_linear_idx thread_linear_idx = thread_linear_idx div 32"

definition warp_row_idx :: "nat \<Rightarrow> nat" where
  "warp_row_idx w = w div NUM_WARPS_X"

definition warp_col_idx :: "nat \<Rightarrow> nat" where
  "warp_col_idx w = w mod NUM_WARPS_X"

definition thread_linear_idx_in_warp :: "nat \<Rightarrow> nat" where
  "thread_linear_idx_in_warp thread_linear_idx = thread_linear_idx mod 32"

definition thread_linear_row_idx_in_warp :: "nat \<Rightarrow> nat" where
  "thread_linear_row_idx_in_warp thread_linear_idx =
     thread_linear_idx_in_warp thread_linear_idx div NUM_THREADS_PER_WARP_X"

definition thread_linear_col_idx_in_warp :: "nat \<Rightarrow> nat" where
  "thread_linear_col_idx_in_warp thread_linear_idx =
     thread_linear_idx_in_warp thread_linear_idx mod NUM_THREADS_PER_WARP_X"

text \<open>\<open>num_thread_block_tiles\<close>: the number of reduction tiles of either kernel.\<close>

definition num_thread_block_tiles :: "nat \<Rightarrow> nat" where
  "num_thread_block_tiles k = (k + BLOCK_TILE_SIZE_K - 1) div BLOCK_TILE_SIZE_K"

text \<open>
  The entry \<open>[kk][i]\<close> of \<open>A_thread_block_tile_transposed\<close> and of \<open>B_thread_block_tile\<close>
  as worker \<open>w\<close> reads it while it works on tile \<open>t\<close>: the entry of tile \<open>t\<close>, or that of
  tile \<open>t + 1\<close> when there is a next tile and the entry was refilled already.
\<close>

definition A_tile_read ::
  "interleaving \<Rightarrow> nat \<Rightarrow> nat \<Rightarrow> nat \<Rightarrow> buffer \<Rightarrow> nat \<Rightarrow> buffer \<Rightarrow> nat \<Rightarrow> nat \<Rightarrow> nat \<Rightarrow> nat
    \<Rightarrow> nat \<Rightarrow> nat \<Rightarrow> nat \<Rightarrow> elem" where
  "A_tile_read il m n k A lda B ldb by bx w t kk i =
    (if t + 1 < num_thread_block_tiles k \<and> A_refilled il by bx w t kk i
     then fst (load_data_to_shared_memory_transposed_vectorized m n k A lda B ldb by bx (t + 1)) kk i
     else fst (load_data_to_shared_memory_transposed_vectorized m n k A lda B ldb by bx t) kk i)"

definition B_tile_read ::
  "interleaving \<Rightarrow> nat \<Rightarrow> nat \<Rightarrow> nat \<Rightarrow> buffer \<Rightarrow> nat \<Rightarrow> buffer \<Rightarrow> nat \<Rightarrow> nat \<Rightarrow> nat \<Rightarrow> nat
    \<Rightarrow> nat \<Rightarrow> nat \<Rightarrow> nat \<Rightarrow> elem" where
  "B_tile_read il m n k A lda B ldb by bx w t kk i =
    (if t + 1 < num_thread_block_tiles k \<and> B_refilled il by bx w t kk i
     then snd (load_data_to_shared_memory_transposed_vectorized m n k A lda B ldb by bx (t + 1)) kk i
     else snd (load_data_to_shared_memory_transposed_vectorized m n k A lda B ldb by bx t) kk i)"

section \<open>Kernel v06\<close>

text \<open>
  The reduction loop of one thread. \<open>C_thread_results\<close> starts at zero; every reduction
  step copies the thread's slice of the two staging buffers to \<open>A_vals\<close> and \<open>B_vals\<close>
  (vector copies, which move each element once) and adds the outer product.
\<close>

definition v06_A_thread_block_tile_row_idx :: "nat \<Rightarrow> nat \<Rightarrow> nat" where
  "v06_A_thread_block_tile_row_idx tid thread_tile_repeat_row_idx =
     warp_row_idx (warp_linear_idx tid) * WARP_TILE_SIZE_Y
     + thread_tile_repeat_row_idx * (WARP_TILE_SIZE_Y div NUM_THREAD_TILES_PER_WARP_Y)
     + thread_linear_row_idx_in_warp tid * THREAD_TILE_SIZE_Y"

definition v06_B_thread_block_tile_col_idx :: "nat \<Rightarrow> nat \<Rightarrow> nat" where
  "v06_B_thread_block_tile_col_idx tid thread_tile_repeat_col_idx =
     warp_col_idx (warp_linear_idx tid) * WARP_TILE_SIZE_X
     + thread_tile_repeat_col_idx * (WARP_TILE_SIZE_X div NUM_THREAD_TILES_PER_WARP_X)
     + thread_linear_col_idx_in_warp tid * THREAD_TILE_SIZE_X"

definition v06_accumulate ::
  "interleaving \<Rightarrow> nat \<Rightarrow> nat \<Rightarrow> nat \<Rightarrow> buffer \<Rightarrow> nat \<Rightarrow> buffer \<Rightarrow> nat \<Rightarrow> nat \<Rightarrow> nat \<Rightarrow> nat
    \<Rightarrow> (nat \<Rightarrow> nat \<Rightarrow> nat \<Rightarrow> nat \<Rightarrow> elem)" where
  "v06_accumulate il m n k A lda B ldb by bx tid =
    fold (\<lambda>thread_block_tile_idx C_thread_results.
      fold (\<lambda>k_i C_thread_results.
           let A_vals = (\<lambda>rr y. A_tile_read il m n k A lda B ldb by bx tid
                            thread_block_tile_idx k_i
                            (v06_A_thread_block_tile_row_idx tid rr + y));
               B_vals = (\<lambda>rc x. B_tile_read il m n k A lda B ldb by bx tid
                            thread_block_tile_idx k_i
                            (v06_B_thread_block_tile_col_idx tid rc + x))
           in (\<lambda>rr rc y x. C_thread_results rr rc y x + A_vals rr y * B_vals rc x))
         [0..<BLOCK_TILE_SIZE_K] C_thread_results)
      [0..<num_thread_block_tiles k] (\<lambda>rr rc y x. 0)"

text \<open>
  One vectorized load-modify-store of the write-back: the \<open>int4\<close> at
  \<open>&C[C_row_idx * ldc + C_col_idx]\<close> is loaded, each of its \<open>NUM_VECTOR_UNITS\<close> elements
  is replaced by \<open>alpha * acc + beta * old\<close>, and the \<open>int4\<close> is stored back. An \<open>int4\<close>
  access needs a 16-byte aligned address, that is an offset that is a multiple of
  \<open>NUM_VECTOR_UNITS\<close>; at any other offset the access faults and nothing is stored.
\<close>

definition v06_store_vector ::
  "dtype \<Rightarrow> elem \<Rightarrow> elem \<Rightarrow> nat \<Rightarrow> nat \<Rightarrow> nat \<Rightarrow> (nat \<Rightarrow> elem) \<Rightarrow> gpu_state \<Rightarrow> gpu_state" where
  "v06_store_vector T alpha beta ldc C_row_idx C_col_idx acc s =
    (let base = C_row_idx * ldc + C_col_idx;
         C_vals = (\<lambda>i. C_mem s (base + i));
         C_vals' = (\<lambda>i. alpha * acc i + beta * C_vals i);
         touched = (\<lambda>i. (C_row_idx, C_col_idx + i, base + i)) ` {0..<NUM_VECTOR_UNITS T}
     in if base mod NUM_VECTOR_UNITS T \<noteq> 0 then s\<lparr>misaligned := True\<rparr>
        else s\<lparr>C_mem := (\<lambda>off. if base \<le> off \<and> off < base + NUM_VECTOR_UNITS T
                               then C_vals' (off - base) else C_mem s off),
               C_reads := C_reads s \<union> touched,
               C_writes := C_writes s \<union> touched\<rparr>)"

definition v06_C_row_idx :: "nat \<Rightarrow> nat \<Rightarrow> nat \<Rightarrow> nat \<Rightarrow> nat" where
  "v06_C_row_idx by tid thread_tile_repeat_row_idx thread_tile_y_idx =
     by * BLOCK_TILE_SIZE_Y + warp_row_idx (warp_linear_idx tid) * WARP_TILE_SIZE_Y
     + thread_tile_repeat_row_idx * (WARP_TILE_SIZE_Y div NUM_THREAD_TILES_PER_WARP_Y)
     + thread_linear_row_idx_in_warp tid * THREAD_TILE_SIZE_Y + thread_tile_y_idx"

definition v06_C_col_idx :: "dtype \<Rightarrow> nat \<Rightarrow> nat \<Rightarrow> nat \<Rightarrow> nat \<Rightarrow> nat" where
  "v06_C_col_idx T bx tid thread_tile_repeat_col_idx thread_tile_x_vector_idx =
     bx * BLOCK_TILE_SIZE_X + warp_col_idx (warp_linear_idx tid) * WARP_TILE_SIZE_X
     + thread_tile_repeat_col_idx * (WARP_TILE_SIZE_X div NUM_THREAD_TILES_PER_WARP_X)
     + thread_linear_col_idx_in_warp tid * THREAD_TILE_SIZE_X
     + thread_tile_x_vector_idx * NUM_VECTOR_UNITS T"

definition v06_write_results ::
  "dtype \<Rightarrow> nat \<Rightarrow> nat \<Rightarrow> elem \<Rightarrow> elem \<Rightarrow> nat \<Rightarrow> nat \<Rightarrow> nat \<Rightarrow> nat
    \<Rightarrow> (nat \<Rightarrow> nat \<Rightarrow> nat \<Rightarrow> nat \<Rightarrow> elem) \<Rightarrow> gpu_state \<Rightarrow> gpu_state" where
  "v06_write_results T m n alpha beta ldc by bx tid C_thread_results =
    fold (\<lambda>rr. fold (\<lambda>rc. fold (\<lambda>y. fold (\<lambda>xv s.
      let C_row_idx = v06_C_row_idx by tid rr y;
          C_col_idx = v06_C_col_idx T bx tid rc xv
      in if C_row_idx < m \<and> C_col_idx < n
         then v06_store_vector T alpha beta ldc C_row_idx C_col_idx
                (\<lambda>i. C_thread_results rr rc y (xv * NUM_VECTOR_UNITS T + i)) s
         else s)
      [0..<VECTORIZED_THREAD_TILE_SIZE_X T])
      [0..<THREAD_TILE_SIZE_Y])
      [0..<NUM_THREAD_TILES_PER_WARP_X])
      [0..<NUM_THREAD_TILES_PER_WARP_Y]"

text \<open>The kernel body, run by thread \<open>tid\<close> of block \<open>(bx, by)\<close>.\<close>

definition gemm_v06_vectorized ::
  "interleaving \<Rightarrow> dtype \<Rightarrow> nat \<Rightarrow> nat \<Rightarrow> nat \<Rightarrow> elem \<Rightarrow> buffer \<Rightarrow> nat \<Rightarrow> buffer \<Rightarrow> nat
    \<Rightarrow> elem \<Rightarrow> nat \<Rightarrow> nat \<Rightarrow> nat \<Rightarrow> nat \<Rightarrow> gpu_state \<Rightarrow> gpu_state" where
  "gemm_v06_vectorized il T m n k alpha A lda B ldb beta ldc by bx tid =
     v06_write_results T m n alpha beta ldc by bx tid
       (v06_accumulate il m n k A lda B ldb by bx tid)"

section \<open>Kernel launch\<close>

text \<open>
  A grid of \<open>gx\<close> by \<open>gy\<close> blocks of \<open>nt\<close> workers each, run one worker after the other.
  A worker reads \<open>C\<close> only in its own write-back.
\<close>

definition run_grid ::
  "nat \<Rightarrow> nat \<Rightarrow> nat \<Rightarrow> (nat \<Rightarrow> nat \<Rightarrow> nat \<Rightarrow> gpu_state \<Rightarrow> gpu_state) \<Rightarrow> gpu_state \<Rightarrow> gpu_state" where
  "run_grid gx gy nt body =
     fold (\<lambda>by. fold (\<lambda>bx. fold (\<lambda>tid. body by bx tid) [0..<nt]) [0..<gx]) [0..<gy]"

text \<open>
  \<open>grid_dim\<close>: the launch functions cast \<open>m\<close> and \<open>n\<close> from \<open>size_t\<close> to \<open>unsigned int\<close> and
  round up in 32-bit arithmetic.
\<close>

definition grid_dim_x :: "nat \<Rightarrow> nat" where
  "grid_dim_x n = ((n mod 2 ^ 32 + BLOCK_TILE_SIZE_X - 1) mod 2 ^ 32) div BLOCK_TILE_SIZE_X"

definition grid_dim_y :: "nat \<Rightarrow> nat" where
  "grid_dim_y m = ((m mod 2 ^ 32 + BLOCK_TILE_SIZE_Y - 1) mod 2 ^ 32) div BLOCK_TILE_SIZE_Y"

definition v06_NUM_THREADS_PER_BLOCK :: nat where
  "v06_NUM_THREADS_PER_BLOCK = NUM_THREADS_X * NUM_THREADS_Y"

text \<open>
  The launch is followed by \<open>CHECK_LAST_CUDA_ERROR\<close>. The CUDA runtime rejects a launch
  configuration with an empty grid or with a grid beyond the device limits
  (\<open>2^31 - 1\<close> blocks in x, \<open>65535\<close> in y); no block runs then. A misaligned access
  aborts the kernel, and the content of \<open>C\<close> is lost with it.
\<close>

datatype cuda_error = InvalidConfiguration | MisalignedAddress

definition launch_configuration_ok :: "nat \<Rightarrow> nat \<Rightarrow> bool" where
  "launch_configuration_ok gx gy \<longleftrightarrow> 1 \<le> gx \<and> gx \<le> 2 ^ 31 - 1 \<and> 1 \<le> gy \<and> gy \<le> 65535"

definition kernel_status :: "gpu_state \<Rightarrow> cuda_error + gpu_state" where
  "kernel_status s = (if misaligned s then Inl MisalignedAddress else Inr s)"

definition launch_gemm_kernel_v06_vectorized ::
  "interleaving \<Rightarrow> dtype \<Rightarrow> nat \<Rightarrow> nat \<Rightarrow> nat \<Rightarrow> elem \<Rightarrow> buffer \<Rightarrow> nat \<Rightarrow> buffer \<Rightarrow> nat
    \<Rightarrow> elem \<Rightarrow> buffer \<Rightarrow> nat \<Rightarrow> cuda_error + gpu_state" where
  "launch_gemm_kernel_v06_vectorized il T m n k alpha A lda B ldb beta C ldc =
    (if launch_configuration_ok (grid_dim_x n) (grid_dim_y m)
     then kernel_status
            (run_grid (grid_dim_x n) (grid_dim_y m) v06_NUM_THREADS_PER_BLOCK
               (gemm_v06_vectorized il T m n k alpha A lda B ldb beta ldc) (initial_state C))
     else Inl InvalidConfiguration)"

section \<open>Kernel v07\<close>

text \<open>
  A WMMA fragment is a 16 by 16 tile owned by one warp, here a function of the row and the
  column inside the tile. \<open>fill_fragment\<close>, \<open>load_matrix_sync\<close>, \<open>mma_sync\<close> and
  \<open>store_matrix_sync\<close> are the warp-wide operations of the CUDA WMMA interface; the
  kernel body is therefore modelled once per warp \<open>w = thread_linear_idx / 32\<close>.
\<close>

type_synonym fragment = "nat \<Rightarrow> nat \<Rightarrow> elem"

definition fill_fragment :: "elem \<Rightarrow> fragment" where
  "fill_fragment v = (\<lambda>i j. v)"

definition mma_sync :: "fragment \<Rightarrow> fragment \<Rightarrow> fragment \<Rightarrow> fragment" where
  "mma_sync a b c = (\<lambda>i j. c i j + sum_list (map (\<lambda>kk. a i kk * b kk j) [0..<WMMA_TILE_SIZE_K]))"

definition load_matrix_sync :: "buffer \<Rightarrow> nat \<Rightarrow> nat \<Rightarrow> fragment" where
  "load_matrix_sync mem base ldm = (\<lambda>i j. mem (base + i * ldm + j))"

definition store_matrix_sync :: "buffer \<Rightarrow> nat \<Rightarrow> fragment \<Rightarrow> nat \<Rightarrow> buffer" where
  "store_matrix_sync mem base frag ldm =
     fold (\<lambda>(i, j) mem. mem(base + i * ldm + j := frag i j))
       (List.product [0..<WMMA_TILE_SIZE_Y] [0..<WMMA_TILE_SIZE_X]) mem"

definition v07_accumulate ::
  "interleaving \<Rightarrow> nat \<Rightarrow> nat \<Rightarrow> nat \<Rightarrow> buffer \<Rightarrow> nat \<Rightarrow> buffer \<Rightarrow> nat \<Rightarrow> nat \<Rightarrow> nat \<Rightarrow> nat
    \<Rightarrow> (nat \<Rightarrow> nat \<Rightarrow> fragment)" where
  "v07_accumulate il m n k A lda B ldb by bx w =
    fold (\<lambda>thread_block_tile_idx acc_frags.
      fold (\<lambda>k_i acc_frags.
           let a_frags = (\<lambda>ty i kk. A_tile_read il m n k A lda B ldb by bx w
                            thread_block_tile_idx (k_i * WMMA_TILE_SIZE_K + kk)
                            (warp_row_idx w * WARP_TILE_SIZE_Y + ty * WMMA_TILE_SIZE_Y + i));
               b_frags = (\<lambda>tx kk j. B_tile_read il m n k A lda B ldb by bx w
                            thread_block_tile_idx (k_i * WMMA_TILE_SIZE_K + kk)
                            (warp_col_idx w * WARP_TILE_SIZE_X + tx * WMMA_TILE_SIZE_Y + j))
           in (\<lambda>ty tx. mma_sync (a_frags ty) (b_frags tx) (acc_frags ty tx)))
         [0..<NUM_WMMA_TILES_K] acc_frags)
      [0..<num_thread_block_tiles k] (\<lambda>ty tx. fill_fragment 0)"

text \<open>The first row and column, in \<open>C\<close>, of output fragment \<open>(ty, tx)\<close> of warp \<open>w\<close>.\<close>

definition v07_C_row_idx :: "nat \<Rightarrow> nat \<Rightarrow> nat \<Rightarrow> nat" where
  "v07_C_row_idx by w wmma_tile_row_idx =
     by * BLOCK_TILE_SIZE_Y + warp_row_idx w * WARP_TILE_SIZE_Y
     + wmma_tile_row_idx * WMMA_TILE_SIZE_Y"

definition v07_C_col_idx :: "nat \<Rightarrow> nat \<Rightarrow> nat \<Rightarrow> nat" where
  "v07_C_col_idx bx w wmma_tile_col_idx =
     bx * BLOCK_TILE_SIZE_X + warp_col_idx w * WARP_TILE_SIZE_X
     + wmma_tile_col_idx * WMMA_TILE_SIZE_X"

text \<open>
  The write-back of one output fragment: the fragment of \<open>C\<close> at
  \<open>&C[row * n + col]\<close> is loaded with stride \<open>n\<close>, blended element by element, and stored
  to the same place with stride \<open>n\<close>. The WMMA interface asks for a 32-byte aligned
  address (an offset that is a multiple of 16 for \<open>__half\<close>) and for a stride that is a
  multiple of 16 bytes (of 8 elements); the access faults otherwise.
\<close>

definition v07_store_fragment ::
  "elem \<Rightarrow> elem \<Rightarrow> nat \<Rightarrow> nat \<Rightarrow> nat \<Rightarrow> fragment \<Rightarrow> gpu_state \<Rightarrow> gpu_state" where
  "v07_store_fragment alpha beta n row col acc_frag s =
    (let base = row * n + col;
         c_frag = load_matrix_sync (C_mem s) base n;
         c_frag' = (\<lambda>i j. alpha * acc_frag i j + beta * c_frag i j);
         touched = (\<lambda>(i, j). (row + i, col + j, base + i * n + j))
                     ` set (List.product [0..<WMMA_TILE_SIZE_Y] [0..<WMMA_TILE_SIZE_X])
     in if base mod 16 \<noteq> 0 \<or> n mod 8 \<noteq> 0 then s\<lparr>misaligned := True\<rparr>
        else s\<lparr>C_mem := store_matrix_sync (C_mem s) base c_frag' n,
               C_reads := C_reads s \<union> touched,
               C_writes := C_writes s \<union> touched\<rparr>)"

definition v07_write_results ::
  "nat \<Rightarrow> nat \<Rightarrow> elem \<Rightarrow> elem \<Rightarrow> nat \<Rightarrow> nat \<Rightarrow> nat \<Rightarrow> (nat \<Rightarrow> nat \<Rightarrow> fragment)
    \<Rightarrow> gpu_state \<Rightarrow> gpu_state" where
  "v07_write_results m n alpha beta by bx w acc_frags =
    fold (\<lambda>ty. fold (\<lambda>tx.
      v07_store_fragment alpha beta n (v07_C_row_idx by w ty) (v07_C_col_idx bx w tx)
        (acc_frags ty tx))
      [0..<NUM_WMMA_TILES_X])
      [0..<NUM_WMMA_TILES_Y]"

text \<open>The kernel body, run by warp \<open>w\<close> of block \<open>(bx, by)\<close>. The parameter \<open>ldc\<close> is
  received and not used.\<close>

definition gemm_v07_vectorized ::
  "interleaving \<Rightarrow> nat \<Rightarrow> nat \<Rightarrow> nat \<Rightarrow> elem \<Rightarrow> buffer \<Rightarrow> nat \<Rightarrow> buffer \<Rightarrow> nat \<Rightarrow> elem \<Rightarrow> nat
    \<Rightarrow> nat \<Rightarrow> nat \<Rightarrow> nat \<Rightarrow> gpu_state \<Rightarrow> gpu_state" where
  "gemm_v07_vectorized il m n k alpha A lda B ldb beta ldc by bx w =
     v07_write_results m n alpha beta by bx w
       (v07_accumulate il m n k A lda B ldb by bx w)"

definition v07_NUM_THREADS_PER_BLOCK :: nat where
  "v07_NUM_THREADS_PER_BLOCK = NUM_WARPS_X * NUM_WARPS_Y * 32"

definition launch_gemm_kernel_v07_vectorized ::
  "interleaving \<Rightarrow> nat \<Rightarrow> nat \<Rightarrow> nat \<Rightarrow> elem \<Rightarrow> buffer \<Rightarrow> nat \<Rightarrow> buffer \<Rightarrow> nat \<Rightarrow> elem
    \<Rightarrow> buffer \<Rightarrow> nat \<Rightarrow> cuda_error + gpu_state" where
  "launch_gemm_kernel_v07_vectorized il m n k alpha A lda B ldb beta C ldc =
    (if launch_configuration_ok (grid_dim_x n) (grid_dim_y m)
     then kernel_status
            (run_grid (grid_dim_x n) (grid_dim_y m) (v07_NUM_THREADS_PER_BLOCK div 32)
               (gemm_v07_vectorized il m n k alpha A lda B ldb beta ldc) (initial_state C))
     else Inl InvalidConfiguration)"

section \<open>Reference result\<close>

text \<open>The value \<open>alpha * (sum over p < k of A[i][p] * B[p][j]) + beta * c\<close> the interface
  promises for element \<open>(i, j)\<close> whose previous value is \<open>c\<close>.\<close>

definition dot :: "buffer \<Rightarrow> nat \<Rightarrow> buffer \<Rightarrow> nat \<Rightarrow> nat \<Rightarrow> nat \<Rightarrow> nat \<Rightarrow> elem" where
  "dot A lda B ldb k i j = sum_list (map (\<lambda>p. A_elem A lda i p * B_elem B ldb p j) [0..<k])"

definition gemm_ref ::
  "elem \<Rightarrow> buffer \<Rightarrow> nat \<Rightarrow> buffer \<Rightarrow> nat \<Rightarrow> elem \<Rightarrow> nat \<Rightarrow> nat \<Rightarrow> nat \<Rightarrow> elem \<Rightarrow> elem" where
  "gemm_ref alpha A lda B ldb beta k i j c = alpha * dot A lda B ldb k i j + beta * c"

text \<open>\<open>ceil(a / b)\<close>, the group count that section 4.4 asks for.\<close>

definition ceil_div :: "nat \<Rightarrow> nat \<Rightarrow> nat" where
  "ceil_div a b = nat (ceiling (real a / real b))"

section \<open>Notions used in the proofs\<close>

text \<open>
  The result of a run is determined by the source when no worker can read a refilled
  entry: with a single reduction tile (\<open>k\<close> of at most \<open>BLOCK_TILE_SIZE_K\<close>, so that the
  loader is called once) or under the in-order interleaving.
\<close>

definition race_free :: "interleaving \<Rightarrow> nat \<Rightarrow> bool" where
  "race_free il k \<longleftrightarrow> k \<le> BLOCK_TILE_SIZE_K \<or> il = in_order"

text \<open>The sum that a worker accumulates for row \<open>r\<close> and column \<open>c\<close> of \<open>C\<close> from intact
  tiles: the zero entries of the last partial tile and of the rows and columns past the
  edge of the matrices are part of it.\<close>

definition padded_dot :: "nat \<Rightarrow> nat \<Rightarrow> nat \<Rightarrow> buffer \<Rightarrow> nat \<Rightarrow> buffer \<Rightarrow> nat \<Rightarrow> nat \<Rightarrow> nat \<Rightarrow> elem" where
  "padded_dot m n k A lda B ldb r c =
     sum_list (map (\<lambda>p. (if r < m \<and> p < k then A_elem A lda r p else 0)
                        * (if p < k \<and> c < n then B_elem B ldb p c else 0))
               [0..<num_thread_block_tiles k * BLOCK_TILE_SIZE_K])"

text \<open>
  \<open>effect P F ld s s'\<close>: from \<open>s\<close> to \<open>s'\<close>, exactly the offsets in \<open>P\<close> were loaded and
  stored, each once, as row \<open>off div ld\<close> and column \<open>off mod ld\<close>; the new content of such
  an offset is \<open>F\<close> of the old one, and no access was misaligned.
\<close>

definition region :: "(nat \<Rightarrow> bool) \<Rightarrow> nat \<Rightarrow> (nat \<times> nat \<times> nat) set" where
  "region P ld = {(off div ld, off mod ld, off) | off. P off}"

definition effect ::
  "(nat \<Rightarrow> bool) \<Rightarrow> (nat \<Rightarrow> elem \<Rightarrow> elem) \<Rightarrow> nat \<Rightarrow> gpu_state \<Rightarrow> gpu_state \<Rightarrow> bool" where
  "effect P F ld s s' \<longleftrightarrow>
     (\<forall>off. C_mem s' off = (if P off then F off (C_mem s off) else C_mem s off))
     \<and> C_writes s' = C_writes s \<union> region P ld
     \<and> C_reads s' = C_reads s \<union> region P ld
     \<and> misaligned s' = misaligned s"

text \<open>The offsets that a launch of kernel v06 stores to, and what it stores there.\<close>

definition v06_written :: "dtype \<Rightarrow> nat \<Rightarrow> nat \<Rightarrow> nat \<Rightarrow> nat \<Rightarrow> bool" where
  "v06_written T m n ldc off \<longleftrightarrow>
     off div ldc < m \<and> (off mod ldc) div NUM_VECTOR_UNITS T * NUM_VECTOR_UNITS T < n"

definition v06_blend ::
  "nat \<Rightarrow> nat \<Rightarrow> nat \<Rightarrow> elem \<Rightarrow> buffer \<Rightarrow> nat \<Rightarrow> buffer \<Rightarrow> nat \<Rightarrow> elem \<Rightarrow> nat \<Rightarrow> nat \<Rightarrow> elem \<Rightarrow> elem" where
  "v06_blend m n k alpha A lda B ldb beta ldc off v =
     alpha * padded_dot m n k A lda B ldb (off div ldc) (off mod ldc) + beta * v"

text \<open>What a launch of kernel v07 stores at an offset, which it splits by the stride \<open>n\<close>.\<close>

definition v07_blend ::
  "nat \<Rightarrow> nat \<Rightarrow> nat \<Rightarrow> elem \<Rightarrow> buffer \<Rightarrow> nat \<Rightarrow> buffer \<Rightarrow> nat \<Rightarrow> elem \<Rightarrow> nat \<Rightarrow> elem \<Rightarrow> elem" where
  "v07_blend m n k alpha A lda B ldb beta off v =
     alpha * padded_dot m n k A lda B ldb (off div n) (off mod n) + beta * v"

section \<open>Unfolding the tile parameters\<close>

named_theorems tile_defs

lemmas tile_consts [tile_defs] =
  BLOCK_TILE_SIZE_X_def BLOCK_TILE_SIZE_Y_def BLOCK_TILE_SIZE_K_def
  WARP_TILE_SIZE_X_def WARP_TILE_SIZE_Y_def NUM_WARPS_X_def NUM_WARPS_Y_def
  THREAD_TILE_SIZE_X_def THREAD_TILE_SIZE_Y_def
  NUM_THREADS_PER_WARP_X_def NUM_THREADS_PER_WARP_Y_def
  NUM_THREAD_TILES_PER_WARP_X_def NUM_THREAD_TILES_PER_WARP_Y_def
  NUM_THREADS_X_def NUM_THREADS_Y_def
  WMMA_TILE_SIZE_X_def WMMA_TILE_SIZE_Y_def WMMA_TILE_SIZE_K_def
  NUM_WMMA_TILES_X_def NUM_WMMA_TILES_Y_def NUM_WMMA_TILES_K_def
  v06_NUM_THREADS_PER_BLOCK_def v07_NUM_THREADS_PER_BLOCK_def

lemmas idx_defs [tile_defs] =
  warp_linear_idx_def warp_row_idx_def warp_col_idx_def thread_linear_idx_in_warp_def
  thread_linear_row_idx_in_warp_def thread_linear_col_idx_in_warp_def

section \<open>Launch configuration\<close>

lemma grid_dim_x_no_wrap:
  assumes "n \<le> 2 ^ 32 - 128"
  shows "grid_dim_x n = (n + 127) div 128"
proof -
  have "n mod 2 ^ 32 = n" using assms by simp
  moreover have "(n + 127) mod 2 ^ 32 = n + 127" using assms by simp
  ultimately show ?thesis by (simp add: grid_dim_x_def BLOCK_TILE_SIZE_X_def)
qed

lemma grid_dim_y_no_wrap:
  assumes "m \<le> 2 ^ 32 - 128"
  shows "grid_dim_y m = (m + 127) div 128"
proof -
  have "m mod 2 ^ 32 = m" using assms by simp
  moreover have "(m + 127) mod 2 ^ 32 = m + 127" using assms by simp
  ultimately show ?thesis by (simp add: grid_dim_y_def BLOCK_TILE_SIZE_Y_def)
qed

lemma ceil_div_bounds:
  fixes a b :: nat
  assumes b: "0 < b"
  shows "a \<le> ((a + b - 1) div b) * b" and "((a + b - 1) div b) * b < a + b"
proof -
  let ?q = "(a + b - 1) div b"
  have m: "(a + b - 1) mod b < b" using b by simp
  have e: "?q * b + (a + b - 1) mod b = a + b - 1" by simp
  show "a \<le> ?q * b" using m e b by linarith
  show "?q * b < a + b" using e b by linarith
qed

lemma ceil_div_eq:
  assumes b: "0 < b"
  shows "ceil_div a b = (a + b - 1) div b"
proof -
  let ?q = "(a + b - 1) div b"
  have rb: "0 < real b" using b by simp
  have "real a \<le> real (?q * b)"
    using ceil_div_bounds(1) [OF b, of a] by (rule iffD2 [OF of_nat_le_iff])
  then have 1: "real a / real b \<le> real ?q"
    using rb by (simp only: pos_divide_le_eq of_nat_mult)
  have "real (?q * b) < real (a + b)"
    using ceil_div_bounds(2) [OF b, of a] by (rule iffD2 [OF of_nat_less_iff])
  then have "real ?q * real b - real b < real a"
    by (simp only: of_nat_mult of_nat_add)
  then have "(real ?q - 1) * real b < real a"
    by (simp only: left_diff_distrib mult_1)
  then have 2: "real ?q - 1 < real a / real b"
    using rb by (simp only: pos_less_divide_eq)
  have "ceiling (real a / real b) = int ?q"
    by (rule ceiling_unique) (simp_all only: of_int_of_nat_eq 1 2)
  then show ?thesis by (simp only: ceil_div_def nat_int)
qed

lemma grid_dim_x_ceil: "n \<le> 2 ^ 32 - 128 \<Longrightarrow> grid_dim_x n = ceil_div n BLOCK_TILE_SIZE_X"
  by (simp add: grid_dim_x_no_wrap ceil_div_eq BLOCK_TILE_SIZE_X_def)

lemma grid_dim_y_ceil: "m \<le> 2 ^ 32 - 128 \<Longrightarrow> grid_dim_y m = ceil_div m BLOCK_TILE_SIZE_Y"
  by (simp add: grid_dim_y_no_wrap ceil_div_eq BLOCK_TILE_SIZE_Y_def)

section \<open>Folds over the loop nests\<close>

lemma fold_invariant:
  assumes "\<And>i s. i \<in> set xs \<Longrightarrow> I s \<Longrightarrow> I (f i s)" and "I s"
  shows "I (fold f xs s)"
  using assms by (induction xs arbitrary: s) simp_all

lemma fold_pointwise_add:
  "fold (\<lambda>i acc. (\<lambda>a b c d. acc a b c d + h i a b c d)) xs acc0 a b c d
     = acc0 a b c d + sum_list (map (\<lambda>i. h i a b c d) xs)"
  by (induction xs arbitrary: acc0) (simp_all add: add.assoc)

lemma upt_tile: "[0..<Suc N * K] = [0..<N * K] @ map (\<lambda>i. N * K + i) [0..<K]"
proof -
  have "[0..<N * K + K] = [0..<N * K] @ [N * K..<N * K + K]"
    by (rule upt_add_eq_append) simp
  moreover have "[N * K..<K + N * K] = map (\<lambda>i. i + N * K) [0..<K]"
    by (rule map_add_upt [symmetric])
  moreover have "(\<lambda>i. i + N * K) = (\<lambda>i. N * K + i)"
    by (rule ext) (rule add.commute)
  moreover have "Suc N * K = N * K + K" "K + N * K = N * K + K" by simp_all
  ultimately show ?thesis by (simp only:)
qed

lemma sum_list_tiles:
  fixes f :: "nat \<Rightarrow> elem"
  shows "sum_list (map (\<lambda>t. sum_list (map (\<lambda>i. f (t * K + i)) [0..<K])) [0..<N])
     = sum_list (map f [0..<N * K])"
proof (induction N)
  case 0
  show ?case by simp
next
  case (Suc N)
  have "sum_list (map f [0..<Suc N * K])
      = sum_list (map f [0..<N * K]) + sum_list (map f (map (\<lambda>i. N * K + i) [0..<K]))"
    by (simp only: upt_tile map_append sum_list_append)
  also have "map f (map (\<lambda>i. N * K + i) [0..<K]) = map (\<lambda>i. f (N * K + i)) [0..<K]"
    by (simp only: map_map comp_def)
  finally show ?case using Suc.IH by (simp only: upt_Suc_append [OF le0] map_append sum_list_append list.map sum_list.Cons sum_list.Nil add_0_right)
qed

lemma sum_list_zero: "(\<And>x. x \<in> set xs \<Longrightarrow> (f x :: elem) = 0) \<Longrightarrow> sum_list (map f xs) = 0"
  by (induction xs) simp_all

lemma race_free_no_refill:
  assumes "race_free il k" and "t < num_thread_block_tiles k"
  shows "\<not> (t + 1 < num_thread_block_tiles k \<and> A_refilled il by bx w t kk i)"
    and "\<not> (t + 1 < num_thread_block_tiles k \<and> B_refilled il by bx w t kk i)"
proof -
  have "num_thread_block_tiles k \<le> 1 \<or> il = in_order"
    using assms(1) unfolding race_free_def num_thread_block_tiles_def BLOCK_TILE_SIZE_K_def
    by auto
  then show "\<not> (t + 1 < num_thread_block_tiles k \<and> A_refilled il by bx w t kk i)"
    and "\<not> (t + 1 < num_thread_block_tiles k \<and> B_refilled il by bx w t kk i)"
    using assms(2) by (auto simp add: in_order_def)
qed

lemma A_tile_read_race_free:
  assumes "race_free il k" and "t < num_thread_block_tiles k"
  shows "A_tile_read il m n k A lda B ldb by bx w t kk i =
    (if by * BLOCK_TILE_SIZE_Y + i < m \<and> t * BLOCK_TILE_SIZE_K + kk < k
     then A_elem A lda (by * BLOCK_TILE_SIZE_Y + i) (t * BLOCK_TILE_SIZE_K + kk) else 0)"
proof -
  have "\<not> (t + 1 < num_thread_block_tiles k \<and> A_refilled il by bx w t kk i)"
    by (rule race_free_no_refill(1) [OF assms])
  then show ?thesis
    unfolding A_tile_read_def
    by (simp only: if_False load_data_to_shared_memory_transposed_vectorized_def fst_conv)
qed

lemma B_tile_read_race_free:
  assumes "race_free il k" and "t < num_thread_block_tiles k"
  shows "B_tile_read il m n k A lda B ldb by bx w t kk i =
    (if t * BLOCK_TILE_SIZE_K + kk < k \<and> bx * BLOCK_TILE_SIZE_X + i < n
     then B_elem B ldb (t * BLOCK_TILE_SIZE_K + kk) (bx * BLOCK_TILE_SIZE_X + i) else 0)"
proof -
  have "\<not> (t + 1 < num_thread_block_tiles k \<and> B_refilled il by bx w t kk i)"
    by (rule race_free_no_refill(2) [OF assms])
  then show ?thesis
    unfolding B_tile_read_def
    by (simp only: if_False load_data_to_shared_memory_transposed_vectorized_def snd_conv)
qed

lemma v06_accumulate_eq:
  assumes rf: "race_free il k"
  shows "v06_accumulate il m n k A lda B ldb by bx tid rr rc y x =
     padded_dot m n k A lda B ldb
       (by * BLOCK_TILE_SIZE_Y + (v06_A_thread_block_tile_row_idx tid rr + y))
       (bx * BLOCK_TILE_SIZE_X + (v06_B_thread_block_tile_col_idx tid rc + x))"
proof -
  define g where "g rr rc y x p =
      (if by * BLOCK_TILE_SIZE_Y + (v06_A_thread_block_tile_row_idx tid rr + y) < m \<and> p < k
       then A_elem A lda (by * BLOCK_TILE_SIZE_Y + (v06_A_thread_block_tile_row_idx tid rr + y)) p else 0)
    * (if p < k \<and> bx * BLOCK_TILE_SIZE_X + (v06_B_thread_block_tile_col_idx tid rc + x) < n
       then B_elem B ldb p (bx * BLOCK_TILE_SIZE_X + (v06_B_thread_block_tile_col_idx tid rc + x)) else 0)"
    for rr rc y x p
  define h where "h t k_i rr rc y x = g rr rc y x (t * BLOCK_TILE_SIZE_K + k_i)" for t k_i rr rc y x
  define H where "H t rr rc y x = sum_list (map (\<lambda>k_i. h t k_i rr rc y x) [0..<BLOCK_TILE_SIZE_K])"
    for t rr rc y x
  have unf: "v06_accumulate il m n k A lda B ldb by bx tid =
      fold (\<lambda>t acc. fold (\<lambda>k_i acc. (\<lambda>rr rc y x. acc rr rc y x + h t k_i rr rc y x))
                       [0..<BLOCK_TILE_SIZE_K] acc)
           [0..<num_thread_block_tiles k] (\<lambda>rr rc y x. 0)"
    unfolding v06_accumulate_def Let_def
  proof (rule fold_cong [OF refl refl])
    fix t assume "t \<in> set [0..<num_thread_block_tiles k]"
    then have t: "t < num_thread_block_tiles k" by simp
    show "(\<lambda>C_thread_results. fold (\<lambda>k_i C_thread_results rr rc y x.
              C_thread_results rr rc y x
              + A_tile_read il m n k A lda B ldb by bx tid t k_i
                  (v06_A_thread_block_tile_row_idx tid rr + y)
              * B_tile_read il m n k A lda B ldb by bx tid t k_i
                  (v06_B_thread_block_tile_col_idx tid rc + x))
            [0..<BLOCK_TILE_SIZE_K] C_thread_results)
        = (\<lambda>acc. fold (\<lambda>k_i acc. (\<lambda>rr rc y x. acc rr rc y x + h t k_i rr rc y x))
                       [0..<BLOCK_TILE_SIZE_K] acc)"
      unfolding A_tile_read_race_free [OF rf t] B_tile_read_race_free [OF rf t] h_def g_def ..
  qed
  have inner: "fold (\<lambda>k_i acc. (\<lambda>rr rc y x. acc rr rc y x + h t k_i rr rc y x))
                 [0..<BLOCK_TILE_SIZE_K] acc
             = (\<lambda>rr rc y x. acc rr rc y x + H t rr rc y x)" for t acc
    unfolding H_def by (intro ext) (rule fold_pointwise_add)
  have "v06_accumulate il m n k A lda B ldb by bx tid rr rc y x =
          0 + sum_list (map (\<lambda>t. H t rr rc y x) [0..<num_thread_block_tiles k])"
    unfolding unf inner by (rule fold_pointwise_add)
  also have "\<dots> = sum_list (map (\<lambda>t. sum_list (map (\<lambda>k_i. g rr rc y x (t * BLOCK_TILE_SIZE_K + k_i))
                        [0..<BLOCK_TILE_SIZE_K])) [0..<num_thread_block_tiles k])"
    unfolding H_def h_def by (simp only: add_0_left)
  also have "\<dots> = sum_list (map (g rr rc y x) [0..<num_thread_block_tiles k * BLOCK_TILE_SIZE_K])"
    by (rule sum_list_tiles)
  finally show ?thesis unfolding padded_dot_def g_def .
qed

lemma padded_dot_eq_dot:
  assumes "r < m" and "c < n"
  shows "padded_dot m n k A lda B ldb r c = dot A lda B ldb k r c"
proof -
  let ?N = "num_thread_block_tiles k * BLOCK_TILE_SIZE_K"
  let ?g = "\<lambda>p. (if r < m \<and> p < k then A_elem A lda r p else 0)
                        * (if p < k \<and> c < n then B_elem B ldb p c else 0)"
  have le: "k \<le> ?N"
    by (simp add: num_thread_block_tiles_def BLOCK_TILE_SIZE_K_def)
  then have "[0..<?N] = [0..<k] @ [k..<?N]"
    by (metis le_add_diff_inverse upt_add_eq_append zero_le)
  then have "sum_list (map ?g [0..<?N]) = sum_list (map ?g [0..<k]) + sum_list (map ?g [k..<?N])"
    by (simp only: map_append sum_list_append)
  moreover have "sum_list (map ?g [k..<?N]) = 0"
    by (rule sum_list_zero) (simp add: zero_elem_def)
  moreover have "map ?g [0..<k] = map (\<lambda>p. A_elem A lda r p * B_elem B ldb p c) [0..<k]"
    using assms by simp
  ultimately show ?thesis by (simp only: padded_dot_def dot_def add_0_right)
qed

lemma padded_dot_k0: "padded_dot m n 0 A lda B ldb r c = 0"
  by (simp add: padded_dot_def num_thread_block_tiles_def BLOCK_TILE_SIZE_K_def)

lemma offset_decomp:
  fixes d ldc col row off :: nat
  assumes d: "0 < d" and dl: "d dvd ldc" and dc: "d dvd col" and cl: "col < ldc"
  shows "(row * ldc + col \<le> off \<and> off < row * ldc + col + d)
         \<longleftrightarrow> (off div ldc = row \<and> (off mod ldc) div d = col div d)"
proof -
  from dc obtain q where q: "col = d * q" by (auto simp: dvd_def)
  from dl obtain l where l: "ldc = d * l" by (auto simp: dvd_def)
  have "q < l" using cl d unfolding q l by simp
  then have "Suc q \<le> l" by simp
  then have "d * Suc q \<le> d * l" by (rule mult_le_mono2)
  then have fit: "col + d \<le> ldc" unfolding q l by simp
  have cq: "col div d = q" using d q by simp
  show ?thesis
  proof
    assume a: "row * ldc + col \<le> off \<and> off < row * ldc + col + d"
    define i where "i = off - (row * ldc + col)"
    have i: "i < d" using a unfolding i_def by linarith
    have off: "off = row * ldc + (col + i)" using a unfolding i_def by linarith
    have ci: "col + i < ldc" using i fit by simp
    have "off div ldc = row" unfolding off using ci by simp
    moreover have "off mod ldc = col + i" unfolding off using ci by simp
    moreover have "(col + i) div d = q" unfolding q using i d by simp
    ultimately show "off div ldc = row \<and> (off mod ldc) div d = col div d" using cq by simp
  next
    assume a: "off div ldc = row \<and> (off mod ldc) div d = col div d"
    define c where "c = off mod ldc"
    have off: "off = row * ldc + c" using a unfolding c_def
      by (metis div_mult_mod_eq)
    have "c div d = q" using a cq c_def by simp
    then have "d * q \<le> c \<and> c < d * q + d" using d
      by (metis add.commute div_mult_mod_eq le_add2 mod_less_divisor mult.commute nat_add_left_cancel_less)
    then show "row * ldc + col \<le> off \<and> off < row * ldc + col + d" unfolding off q by simp
  qed
qed

lemma ex_digit:
  fixes y q K :: nat
  assumes "0 < K"
  shows "(\<exists>j<K. y = q * K + j) \<longleftrightarrow> y div K = q"
proof
  assume "\<exists>j<K. y = q * K + j"
  then obtain j where "j < K" "y = q * K + j" by blast
  then show "y div K = q" by simp
next
  assume "y div K = q"
  then have "y = q * K + y mod K" by (metis div_mult_mod_eq)
  moreover have "y mod K < K" using assms by simp
  ultimately show "\<exists>j<K. y = q * K + j" by blast
qed

lemma fold_upt_mult:
  "fold f [0..<a * b] = fold (\<lambda>i. fold (\<lambda>j. f (i * b + j)) [0..<b]) [0..<a]"
proof (induction a)
  case 0
  show ?case by simp
next
  case (Suc a)
  have "[0..<a * b + b] = [0..<a * b] @ [a * b..<a * b + b]"
    by (rule upt_add_eq_append) simp
  moreover have "[a * b..<b + a * b] = map (\<lambda>j. j + a * b) [0..<b]"
    by (rule map_add_upt [symmetric])
  moreover have "(\<lambda>j. j + a * b) = (\<lambda>j. a * b + j)"
    by (rule ext) (rule add.commute)
  moreover have "Suc a * b = a * b + b" "b + a * b = a * b + b" by simp_all
  ultimately have "[0..<Suc a * b] = [0..<a * b] @ map (\<lambda>j. a * b + j) [0..<b]"
    by (simp only:)
  then have "fold f [0..<Suc a * b] = fold f (map (\<lambda>j. a * b + j) [0..<b]) \<circ> fold f [0..<a * b]"
    by (simp only: fold_append)
  also have "fold f (map (\<lambda>j. a * b + j) [0..<b]) = fold (\<lambda>j. f (a * b + j)) [0..<b]"
    by (simp only: fold_map comp_def)
  finally have lhs: "fold f [0..<Suc a * b] = fold (\<lambda>j. f (a * b + j)) [0..<b] \<circ> fold f [0..<a * b]" .
  have rhs: "fold (\<lambda>i. fold (\<lambda>j. f (i * b + j)) [0..<b]) [0..<Suc a]
      = fold (\<lambda>j. f (a * b + j)) [0..<b] \<circ> fold (\<lambda>i. fold (\<lambda>j. f (i * b + j)) [0..<b]) [0..<a]"
    by (simp add: fun_eq_iff)
  show ?case unfolding lhs rhs Suc.IH ..
qed

lemma region_disj: "region (\<lambda>off. P off \<or> Q off) ld = region P ld \<union> region Q ld"
  unfolding region_def by blast

lemma region_empty: "region (\<lambda>off. False) ld = {}"
  unfolding region_def by simp

lemma effect_cong:
  assumes "effect P F ld s s'" and "\<And>off. P off \<longleftrightarrow> Q off"
  shows "effect Q F ld s s'"
proof -
  have "P = Q" using assms(2) by (intro ext) simp
  then show ?thesis using assms(1) by simp
qed

lemma effect_skip: "effect (\<lambda>off. False) F ld s s"
  by (simp add: effect_def region_empty)

lemma effectD:
  assumes "effect P F ld s s'"
  shows "C_mem s' off = (if P off then F off (C_mem s off) else C_mem s off)"
    and "C_writes s' = C_writes s \<union> region P ld"
    and "C_reads s' = C_reads s \<union> region P ld"
    and "misaligned s' = misaligned s"
proof -
  from assms have a: "(\<forall>off. C_mem s' off = (if P off then F off (C_mem s off) else C_mem s off))
     \<and> C_writes s' = C_writes s \<union> region P ld
     \<and> C_reads s' = C_reads s \<union> region P ld
     \<and> misaligned s' = misaligned s" unfolding effect_def .
  from a show "C_mem s' off = (if P off then F off (C_mem s off) else C_mem s off)"
    by (rule conjunct1 [THEN spec])
  from a show "C_writes s' = C_writes s \<union> region P ld"
    by (rule conjunct2 [THEN conjunct1])
  from a show "C_reads s' = C_reads s \<union> region P ld"
    by (rule conjunct2 [THEN conjunct2, THEN conjunct1])
  from a show "misaligned s' = misaligned s"
    by (rule conjunct2 [THEN conjunct2, THEN conjunct2])
qed

lemma effect_seq:
  assumes e1: "effect P F ld s s1" and e2: "effect Q F ld s1 s2"
    and disj: "\<And>off. P off \<Longrightarrow> Q off \<Longrightarrow> False"
  shows "effect (\<lambda>off. P off \<or> Q off) F ld s s2"
proof -
  note m1 = effectD(1) [OF e1] and m2 = effectD(1) [OF e2]
  have m: "C_mem s2 off = (if P off \<or> Q off then F off (C_mem s off) else C_mem s off)" for off
  proof (cases "Q off")
    case True
    then have "\<not> P off" using disj by blast
    then show ?thesis using True m1 [of off] m2 [of off] by simp
  next
    case False
    then show ?thesis using m1 [of off] m2 [of off] by simp
  qed
  note w1 = effectD(2) [OF e1] and w2 = effectD(2) [OF e2]
    and r1 = effectD(3) [OF e1] and r2 = effectD(3) [OF e2]
    and f1 = effectD(4) [OF e1] and f2 = effectD(4) [OF e2]
  have w: "C_writes s2 = C_writes s \<union> region (\<lambda>off. P off \<or> Q off) ld"
    unfolding w2 w1 region_disj by (rule Un_assoc)
  have r: "C_reads s2 = C_reads s \<union> region (\<lambda>off. P off \<or> Q off) ld"
    unfolding r2 r1 region_disj by (rule Un_assoc)
  have f: "misaligned s2 = misaligned s" unfolding f2 f1 ..
  show ?thesis unfolding effect_def using m w r f by (intro conjI allI)
qed

lemma fold_effect:
  assumes step: "\<And>i s. i \<in> set xs \<Longrightarrow> effect (P i) F ld s (f i s)"
    and disj: "\<And>i j off. i \<in> set xs \<Longrightarrow> j \<in> set xs \<Longrightarrow> P i off \<Longrightarrow> P j off \<Longrightarrow> i = j"
    and dist: "distinct xs"
  shows "effect (\<lambda>off. \<exists>i\<in>set xs. P i off) F ld s (fold f xs s)"
  using assms
proof (induction xs arbitrary: s)
  case Nil
  show ?case using effect_skip [of F ld s] by simp
next
  case (Cons x xs)
  have step': "\<And>i s. i \<in> set xs \<Longrightarrow> effect (P i) F ld s (f i s)"
    using Cons.prems(1) by simp
  have disj': "\<And>i j off. i \<in> set xs \<Longrightarrow> j \<in> set xs \<Longrightarrow> P i off \<Longrightarrow> P j off \<Longrightarrow> i = j"
    using Cons.prems(2) by simp
  have dist': "distinct xs" and notin: "x \<notin> set xs" using Cons.prems(3) by simp_all
  have e1: "effect (P x) F ld s (f x s)" using Cons.prems(1) by simp
  have e2: "effect (\<lambda>off. \<exists>i\<in>set xs. P i off) F ld (f x s) (fold f xs (f x s))"
    by (rule Cons.IH [OF step' disj' dist'])
  have d: "P x off \<Longrightarrow> \<exists>i\<in>set xs. P i off \<Longrightarrow> False" for off
  proof -
    assume px: "P x off" and "\<exists>i\<in>set xs. P i off"
    then obtain i where i: "i \<in> set xs" "P i off" by blast
    have "x = i" using Cons.prems(2) [of x i off] i px by simp
    then show False using i notin by simp
  qed
  have "effect (\<lambda>off. P x off \<or> (\<exists>i\<in>set xs. P i off)) F ld s (fold f xs (f x s))"
    by (rule effect_seq [OF e1 e2 d])
  then have "effect (\<lambda>off. \<exists>i\<in>set (x # xs). P i off) F ld s (fold f xs (f x s))"
    by (rule effect_cong) simp
  then show ?case by simp
qed

lemma fold_effect_upt:
  assumes step: "\<And>i s. i < N \<Longrightarrow> effect (P i) F ld s (f i s)"
    and disj: "\<And>i j off. i < N \<Longrightarrow> j < N \<Longrightarrow> P i off \<Longrightarrow> P j off \<Longrightarrow> i = j"
  shows "effect (\<lambda>off. \<exists>i<N. P i off) F ld s (fold f [0..<N] s)"
proof -
  have "effect (\<lambda>off. \<exists>i\<in>set [0..<N]. P i off) F ld s (fold f [0..<N] s)"
    by (rule fold_effect) (use step disj in simp_all)
  then show ?thesis by (rule effect_cong) (simp add: Bex_def)
qed

lemma fold_reaches:
  assumes "i \<in> set xs" and "\<And>s. Q (f i s)" and "\<And>j s. Q s \<Longrightarrow> Q (f j s)"
  shows "Q (fold f xs s)"
  using assms(1)
proof (induction xs arbitrary: s)
  case Nil
  then show ?case by simp
next
  case (Cons x xs)
  show ?case
  proof (cases "i \<in> set xs")
    case True
    then show ?thesis using Cons.IH by simp
  next
    case False
    then have "x = i" using Cons.prems by simp
    then have "Q (f x s)" using assms(2) by simp
    then have "Q (fold f xs (f x s))"
      using assms(3) by (intro fold_invariant [where I = Q]) simp_all
    then show ?thesis by simp
  qed
qed

lemma nvu_facts:
  "NUM_VECTOR_UNITS T * VECTORIZED_THREAD_TILE_SIZE_X T = 8"
  "0 < NUM_VECTOR_UNITS T" "0 < VECTORIZED_THREAD_TILE_SIZE_X T"
  by (cases T; simp add: NUM_VECTOR_UNITS_def VECTORIZED_THREAD_TILE_SIZE_X_def THREAD_TILE_SIZE_X_def)+

lemma offset_mod:
  fixes d ldc col row off :: nat
  assumes d: "0 < d" and dl: "d dvd ldc" and dc: "d dvd col" and cl: "col < ldc"
    and a: "row * ldc + col \<le> off \<and> off < row * ldc + col + d"
  shows "off mod ldc = col + (off - (row * ldc + col))"
proof -
  from dc obtain q where q: "col = d * q" by (auto simp: dvd_def)
  from dl obtain l where l: "ldc = d * l" by (auto simp: dvd_def)
  have "q < l" using cl d unfolding q l by simp
  then have "Suc q \<le> l" by simp
  then have "d * Suc q \<le> d * l" by (rule mult_le_mono2)
  then have fit: "col + d \<le> ldc" unfolding q l by simp
  define i where "i = off - (row * ldc + col)"
  have i: "i < d" using a unfolding i_def by linarith
  have off: "off = row * ldc + (col + i)" using a unfolding i_def by linarith
  have ci: "col + i < ldc" using i fit by simp
  have "off mod ldc = col + i" unfolding off using ci by simp
  then show ?thesis unfolding i_def .
qed

lemma v06_vector_step:
  assumes al: "NUM_VECTOR_UNITS T dvd ldc" and nl: "n \<le> ldc"
    and dc: "NUM_VECTOR_UNITS T dvd col"
    and acc: "\<And>i. acc i = padded_dot m n k A lda B ldb row (col + i)"
  shows "effect (\<lambda>off. v06_written T m n ldc off \<and> off div ldc = row
                   \<and> (off mod ldc) div NUM_VECTOR_UNITS T = col div NUM_VECTOR_UNITS T)
           (v06_blend m n k alpha A lda B ldb beta ldc) ldc s
           (if row < m \<and> col < n
            then v06_store_vector T alpha beta ldc row col acc s else s)"
    (is "effect ?P ?F ldc s ?s'")
proof -
  let ?d = "NUM_VECTOR_UNITS T"
  let ?base = "row * ldc + col"
  have d: "0 < ?d" by (rule nvu_facts)
  have colq: "col div ?d * ?d = col" using dc by simp
  show ?thesis
  proof (cases "row < m \<and> col < n")
    case True
    then have cl: "col < ldc" using nl by simp
    have dec: "(?base \<le> off \<and> off < ?base + ?d)
         \<longleftrightarrow> (off div ldc = row \<and> (off mod ldc) div ?d = col div ?d)" for off
      by (rule offset_decomp [OF d al dc cl])
    have md: "?base \<le> off \<and> off < ?base + ?d \<Longrightarrow> off mod ldc = col + (off - ?base)" for off
      by (rule offset_mod [OF d al dc cl])
    have P: "?P off \<longleftrightarrow> (?base \<le> off \<and> off < ?base + ?d)" for off
    proof
      assume "?P off"
      then show "?base \<le> off \<and> off < ?base + ?d" using dec [of off] by simp
    next
      assume a: "?base \<le> off \<and> off < ?base + ?d"
      then have rc: "off div ldc = row" "(off mod ldc) div ?d = col div ?d"
        using dec [of off] by simp_all
      have "v06_written T m n ldc off"
        unfolding v06_written_def rc colq using True by simp
      then show "?P off" using rc by simp
    qed
    have al0: "?base mod ?d = 0"
      using al dc by (simp add: dvd_eq_mod_eq_0 [symmetric])
    have s': "?s' = s\<lparr>C_mem := (\<lambda>off. if ?base \<le> off \<and> off < ?base + ?d
                               then alpha * acc (off - ?base) + beta * C_mem s (?base + (off - ?base))
                               else C_mem s off),
               C_reads := C_reads s \<union> (\<lambda>i. (row, col + i, ?base + i)) ` {0..<?d},
               C_writes := C_writes s \<union> (\<lambda>i. (row, col + i, ?base + i)) ` {0..<?d}\<rparr>"
      using True al0 by (simp add: v06_store_vector_def Let_def)
    have val: "alpha * acc (off - ?base) + beta * v = ?F off v"
      if "?base \<le> off \<and> off < ?base + ?d" for off v
    proof -
      have "off div ldc = row" using dec [of off] that by simp
      moreover have "off mod ldc = col + (off - ?base)" using md [of off] that by simp
      ultimately show ?thesis unfolding v06_blend_def acc by simp
    qed
    have reg: "region ?P ldc = (\<lambda>i. (row, col + i, ?base + i)) ` {0..<?d}"
    proof (rule set_eqI)
      fix x :: "nat \<times> nat \<times> nat"
      show "x \<in> region ?P ldc \<longleftrightarrow> x \<in> (\<lambda>i. (row, col + i, ?base + i)) ` {0..<?d}"
      proof
        assume "x \<in> region ?P ldc"
        then obtain off where x: "x = (off div ldc, off mod ldc, off)" and p: "?P off"
          unfolding region_def by blast
        have r: "?base \<le> off \<and> off < ?base + ?d" using p P [of off] by simp
        have "off div ldc = row" using p by simp
        moreover have "off mod ldc = col + (off - ?base)" by (rule md [OF r])
        moreover have "off = ?base + (off - ?base)" using r by simp
        moreover have "off - ?base \<in> {0..<?d}" using r by auto
        ultimately show "x \<in> (\<lambda>i. (row, col + i, ?base + i)) ` {0..<?d}"
          unfolding x by (metis (mono_tags, lifting) image_eqI)
      next
        assume "x \<in> (\<lambda>i. (row, col + i, ?base + i)) ` {0..<?d}"
        then obtain i where i: "i < ?d" and x: "x = (row, col + i, ?base + i)" by auto
        have r: "?base \<le> ?base + i \<and> ?base + i < ?base + ?d" using i by simp
        have "(?base + i) div ldc = row" using dec [of "?base + i"] r by simp
        moreover have "(?base + i) mod ldc = col + i" using md [OF r] by simp
        moreover have "?P (?base + i)" using P [of "?base + i"] r by simp
        ultimately show "x \<in> region ?P ldc" unfolding x region_def by force
      qed
    qed
    show ?thesis
      unfolding effect_def reg s' using P val by simp
  next
    case False
    have "\<not> ?P off" for off
    proof
      assume a: "?P off"
      then have "row < m" "col div ?d * ?d < n" unfolding v06_written_def by auto
      then show False using False colq by simp
    qed
    then have e: "effect ?P ?F ldc s s"
      by (intro effect_cong [OF effect_skip]) simp
    have eq: "?s' = s" using False by (rule if_not_P)
    show ?thesis unfolding eq by (rule e)
  qed
qed

lemma vec_digit:
  fixes d V colb c :: nat
  assumes d: "0 < d" and V: "0 < V" and dv: "(d * V) dvd colb"
  shows "(\<exists>xv<V. c div d = (colb + xv * d) div d) \<longleftrightarrow> c div (d * V) = colb div (d * V)"
proof -
  from dv obtain q where q: "colb = d * V * q" by (auto simp: dvd_def)
  have a: "(colb + xv * d) div d = q * V + xv" for xv
    unfolding q using d by (simp add: mult.commute mult.left_commute)
  have b: "colb div (d * V) = q" unfolding q using d V by simp
  have c: "c div (d * V) = c div d div V" by (rule div_mult2_eq)
  show ?thesis unfolding a b c by (rule ex_digit [OF V])
qed

lemma vec_inj:
  fixes d colb i j :: nat
  assumes "0 < d" and "(colb + i * d) div d = (colb + j * d) div d"
  shows "i = j"
  using assms by simp

lemma row_digit:
  fixes K rowb r :: nat
  assumes K: "0 < K" and dv: "K dvd rowb"
  shows "(\<exists>y<K. r = rowb + y) \<longleftrightarrow> r div K = rowb div K"
proof -
  from dv obtain q where q: "rowb = q * K" by (auto simp: dvd_def mult.commute)
  have "rowb div K = q" unfolding q using K by simp
  then show ?thesis unfolding q using ex_digit [OF K, of r q] by simp
qed

lemma thread_tiles_per_warp: "NUM_THREAD_TILES_PER_WARP_X = 1" "NUM_THREAD_TILES_PER_WARP_Y = 1"
  by (simp_all add: tile_defs)

lemma v06_C_row_idx_split: "v06_C_row_idx by tid rr y = v06_C_row_idx by tid rr 0 + y"
  by (simp add: v06_C_row_idx_def)

lemma v06_C_col_idx_split:
  "v06_C_col_idx T bx tid rc xv = v06_C_col_idx T bx tid rc 0 + xv * NUM_VECTOR_UNITS T"
  by (simp add: v06_C_col_idx_def)

lemma v06_C_row_idx_dvd: "8 dvd v06_C_row_idx by tid rr 0"
  by (simp add: v06_C_row_idx_def tile_defs)

lemma v06_C_col_idx_dvd: "8 dvd v06_C_col_idx T bx tid rc 0"
  by (simp add: v06_C_col_idx_def tile_defs)

lemma nvu_dvd_col: "NUM_VECTOR_UNITS T dvd v06_C_col_idx T bx tid rc xv"
proof -
  have "NUM_VECTOR_UNITS T dvd 8"
    using nvu_facts(1) [of T] by (metis dvd_triv_left)
  then have "NUM_VECTOR_UNITS T dvd v06_C_col_idx T bx tid rc 0"
    using v06_C_col_idx_dvd by (rule dvd_trans)
  then show ?thesis unfolding v06_C_col_idx_split [of T bx tid rc xv] by simp
qed

lemma v06_acc_at:
  assumes rf: "race_free il k"
  shows "v06_accumulate il m n k A lda B ldb by bx tid rr rc y (xv * NUM_VECTOR_UNITS T + i)
       = padded_dot m n k A lda B ldb (v06_C_row_idx by tid rr y) (v06_C_col_idx T bx tid rc xv + i)"
  unfolding v06_accumulate_eq [OF rf]
  by (simp add: v06_C_row_idx_def v06_C_col_idx_def v06_A_thread_block_tile_row_idx_def
      v06_B_thread_block_tile_col_idx_def add.assoc)

lemma v06_thread_effect:
  assumes al: "NUM_VECTOR_UNITS T dvd ldc" and nl: "n \<le> ldc" and rf: "race_free il k"
  shows "effect (\<lambda>off. v06_written T m n ldc off
                   \<and> off div ldc div 8 = v06_C_row_idx by tid 0 0 div 8
                   \<and> off mod ldc div 8 = v06_C_col_idx T bx tid 0 0 div 8)
           (v06_blend m n k alpha A lda B ldb beta ldc) ldc s
           (gemm_v06_vectorized il T m n k alpha A lda B ldb beta ldc by bx tid s)"
proof -
  let ?d = "NUM_VECTOR_UNITS T"
  let ?V = "VECTORIZED_THREAD_TILE_SIZE_X T"
  let ?F = "v06_blend m n k alpha A lda B ldb beta ldc"
  let ?W = "v06_written T m n ldc"
  let ?rowb = "v06_C_row_idx by tid 0 0"
  let ?colb = "v06_C_col_idx T bx tid 0 0"
  let ?acc = "v06_accumulate il m n k A lda B ldb by bx tid"
  let ?stepx = "\<lambda>y xv s. if v06_C_row_idx by tid 0 y < m \<and> v06_C_col_idx T bx tid 0 xv < n
         then v06_store_vector T alpha beta ldc (v06_C_row_idx by tid 0 y) (v06_C_col_idx T bx tid 0 xv)
                (\<lambda>i. ?acc 0 0 y (xv * ?d + i)) s
         else s"
  have d: "0 < ?d" and V: "0 < ?V" and dV: "?d * ?V = 8" by (rule nvu_facts)+
  have dvc: "(?d * ?V) dvd ?colb" unfolding dV by (rule v06_C_col_idx_dvd)
  have stepx: "effect (\<lambda>off. ?W off \<and> off div ldc = v06_C_row_idx by tid 0 y
                   \<and> off mod ldc div ?d = v06_C_col_idx T bx tid 0 xv div ?d) ?F ldc s (?stepx y xv s)"
    for y xv s
    by (rule v06_vector_step [OF al nl nvu_dvd_col v06_acc_at [OF rf]])
  have levx: "effect (\<lambda>off. ?W off \<and> off div ldc = ?rowb + y \<and> off mod ldc div 8 = ?colb div 8)
                 ?F ldc s (fold (?stepx y) [0..<?V] s)" for y s
  proof -
    have "effect (\<lambda>off. \<exists>xv<?V. ?W off \<and> off div ldc = v06_C_row_idx by tid 0 y
                   \<and> off mod ldc div ?d = v06_C_col_idx T bx tid 0 xv div ?d)
             ?F ldc s (fold (?stepx y) [0..<?V] s)"
    proof (rule fold_effect_upt)
      fix i s assume "i < ?V"
      show "effect (\<lambda>off. ?W off \<and> off div ldc = v06_C_row_idx by tid 0 y
                   \<and> off mod ldc div ?d = v06_C_col_idx T bx tid 0 i div ?d) ?F ldc s (?stepx y i s)"
        by (rule stepx)
    next
      fix i j off
      assume "?W off \<and> off div ldc = v06_C_row_idx by tid 0 y
                   \<and> off mod ldc div ?d = v06_C_col_idx T bx tid 0 i div ?d"
        and "?W off \<and> off div ldc = v06_C_row_idx by tid 0 y
                   \<and> off mod ldc div ?d = v06_C_col_idx T bx tid 0 j div ?d"
      then have "(?colb + i * ?d) div ?d = (?colb + j * ?d) div ?d"
        unfolding v06_C_col_idx_split [of T bx tid 0 i] v06_C_col_idx_split [of T bx tid 0 j]
        by simp
      then show "i = j" by (rule vec_inj [OF d])
    qed
    then show ?thesis
    proof (rule effect_cong)
      fix off
      have "(\<exists>xv<?V. off mod ldc div ?d = (?colb + xv * ?d) div ?d)
            \<longleftrightarrow> off mod ldc div (?d * ?V) = ?colb div (?d * ?V)"
        by (rule vec_digit [OF d V dvc])
      then show "(\<exists>xv<?V. ?W off \<and> off div ldc = v06_C_row_idx by tid 0 y
                   \<and> off mod ldc div ?d = v06_C_col_idx T bx tid 0 xv div ?d)
            \<longleftrightarrow> (?W off \<and> off div ldc = ?rowb + y \<and> off mod ldc div 8 = ?colb div 8)"
        unfolding dV v06_C_col_idx_split [of T bx tid 0 _, symmetric]
          v06_C_row_idx_split [of "by" tid 0 y, symmetric] by blast
    qed
  qed
  have levy: "effect (\<lambda>off. ?W off \<and> off div ldc div 8 = ?rowb div 8 \<and> off mod ldc div 8 = ?colb div 8)
                 ?F ldc s (fold (\<lambda>y. fold (?stepx y) [0..<?V]) [0..<8] s)" for s
  proof -
    have "effect (\<lambda>off. \<exists>y<8. ?W off \<and> off div ldc = ?rowb + y \<and> off mod ldc div 8 = ?colb div 8)
             ?F ldc s (fold (\<lambda>y. fold (?stepx y) [0..<?V]) [0..<8] s)"
    proof (rule fold_effect_upt)
      fix i s assume "i < (8::nat)"
      show "effect (\<lambda>off. ?W off \<and> off div ldc = ?rowb + i \<and> off mod ldc div 8 = ?colb div 8)
              ?F ldc s (fold (?stepx i) [0..<?V] s)"
        by (rule levx)
    next
      fix i j off
      assume "?W off \<and> off div ldc = ?rowb + i \<and> off mod ldc div 8 = ?colb div 8"
        and "?W off \<and> off div ldc = ?rowb + j \<and> off mod ldc div 8 = ?colb div 8"
      then show "i = j" by simp
    qed
    then show ?thesis
    proof (rule effect_cong)
      fix off
      have "(\<exists>y<8. off div ldc = ?rowb + y) \<longleftrightarrow> off div ldc div 8 = ?rowb div 8"
        by (rule row_digit [OF _ v06_C_row_idx_dvd]) simp
      then show "(\<exists>y<8. ?W off \<and> off div ldc = ?rowb + y \<and> off mod ldc div 8 = ?colb div 8)
            \<longleftrightarrow> (?W off \<and> off div ldc div 8 = ?rowb div 8 \<and> off mod ldc div 8 = ?colb div 8)"
        by blast
    qed
  qed
  have unf: "gemm_v06_vectorized il T m n k alpha A lda B ldb beta ldc by bx tid s
      = fold (\<lambda>y. fold (?stepx y) [0..<?V]) [0..<8] s"
    unfolding gemm_v06_vectorized_def v06_write_results_def thread_tiles_per_warp Let_def
      THREAD_TILE_SIZE_Y_def
    by simp
  show ?thesis unfolding unf by (rule levy)
qed

lemma fold_effect_digit:
  assumes K: "0 < K"
    and step: "\<And>j s. j < K \<Longrightarrow> effect (\<lambda>off. R off \<and> g off = q * K + j) F ld s (f j s)"
  shows "effect (\<lambda>off. R off \<and> g off div K = q) F ld s (fold f [0..<K] s)"
proof -
  have "effect (\<lambda>off. \<exists>j<K. R off \<and> g off = q * K + j) F ld s (fold f [0..<K] s)"
  proof (rule fold_effect_upt)
    fix j s assume "j < K"
    then show "effect (\<lambda>off. R off \<and> g off = q * K + j) F ld s (f j s)" by (rule step)
  next
    fix i j :: nat and off
    assume "R off \<and> g off = q * K + i" and "R off \<and> g off = q * K + j"
    then show "i = j" by simp
  qed
  then show ?thesis
  proof (rule effect_cong)
    fix off
    have "(\<exists>j<K. g off = q * K + j) \<longleftrightarrow> g off div K = q" by (rule ex_digit [OF K])
    then show "(\<exists>j<K. R off \<and> g off = q * K + j) \<longleftrightarrow> (R off \<and> g off div K = q)" by blast
  qed
qed

lemma fold_effect_below:
  assumes step: "\<And>j s. j < N \<Longrightarrow> effect (\<lambda>off. R off \<and> g off = j) F ld s (f j s)"
  shows "effect (\<lambda>off. R off \<and> g off < N) F ld s (fold f [0..<N] s)"
proof -
  have "effect (\<lambda>off. \<exists>j<N. R off \<and> g off = j) F ld s (fold f [0..<N] s)"
  proof (rule fold_effect_upt)
    fix j s assume "j < N"
    then show "effect (\<lambda>off. R off \<and> g off = j) F ld s (f j s)" by (rule step)
  next
    fix i j :: nat and off
    assume "R off \<and> g off = i" and "R off \<and> g off = j"
    then show "i = j" by simp
  qed
  then show ?thesis by (rule effect_cong) blast
qed

lemma tid_parts:
  fixes wr wc tr tc :: nat
  assumes "wc < 4" "tr < 8" "tc < 4"
  shows "(wr * 128 + (wc * 32 + (tr * 4 + tc))) div 32 = wr * 4 + wc"
    and "(wr * 128 + (wc * 32 + (tr * 4 + tc))) mod 32 = tr * 4 + tc"
    and "(wr * 4 + wc) div 4 = wr" and "(wr * 4 + wc) mod 4 = wc"
    and "(tr * 4 + tc) div 4 = tr" and "(tr * 4 + tc) mod 4 = tc"
proof -
  have l: "tr * 4 + tc < 32" using assms by linarith
  have e: "wr * 128 + (wc * 32 + (tr * 4 + tc)) = (wr * 4 + wc) * 32 + (tr * 4 + tc)" by simp
  have "((wr * 4 + wc) * 32 + (tr * 4 + tc)) div 32 = (wr * 4 + wc) + (tr * 4 + tc) div 32"
    by (rule div_mult_self3) simp
  then show "(wr * 128 + (wc * 32 + (tr * 4 + tc))) div 32 = wr * 4 + wc"
    by (simp only: e div_less [OF l] add_0_right)
  have "((wr * 4 + wc) * 32 + (tr * 4 + tc)) mod 32 = (tr * 4 + tc) mod 32"
    by (rule mod_mult_self3)
  then show "(wr * 128 + (wc * 32 + (tr * 4 + tc))) mod 32 = tr * 4 + tc"
    by (simp only: e mod_less [OF l])
  show "(wr * 4 + wc) div 4 = wr" "(wr * 4 + wc) mod 4 = wc"
    "(tr * 4 + tc) div 4 = tr" "(tr * 4 + tc) mod 4 = tc"
    using assms by simp_all
qed

lemma v06_thread_base:
  fixes wr wc tr tc :: nat
  assumes "wc < 4" "tr < 8" "tc < 4"
  shows "v06_C_row_idx by (wr * 128 + (wc * 32 + (tr * 4 + tc))) 0 0 div 8 = (by * 2 + wr) * 8 + tr"
    and "v06_C_col_idx T bx (wr * 128 + (wc * 32 + (tr * 4 + tc))) 0 0 div 8 = (bx * 4 + wc) * 4 + tc"
  unfolding v06_C_row_idx_def v06_C_col_idx_def tile_defs tid_parts [OF assms]
  using assms by simp_all

lemma fold_threads_256:
  "fold f [0..<256] =
     fold (\<lambda>wr. fold (\<lambda>wc. fold (\<lambda>tr. fold (\<lambda>tc. f (wr * 128 + (wc * 32 + (tr * 4 + tc))))
       [0..<4]) [0..<8]) [0..<4]) [0..<2]"
proof -
  have a: "fold f [0..<2 * 128] = fold (\<lambda>wr. fold (\<lambda>j. f (wr * 128 + j)) [0..<128]) [0..<2]"
    by (rule fold_upt_mult)
  have b: "fold (\<lambda>j. f (wr * 128 + j)) [0..<4 * 32]
         = fold (\<lambda>wc. fold (\<lambda>l. f (wr * 128 + (wc * 32 + l))) [0..<32]) [0..<4]" for wr
    by (rule fold_upt_mult)
  have c: "fold (\<lambda>l. f (wr * 128 + (wc * 32 + l))) [0..<8 * 4]
         = fold (\<lambda>tr. fold (\<lambda>tc. f (wr * 128 + (wc * 32 + (tr * 4 + tc)))) [0..<4]) [0..<8]" for wr wc
    by (rule fold_upt_mult)
  have n: "(2::nat) * 128 = 256" "(4::nat) * 32 = 128" "(8::nat) * 4 = 32" by simp_all
  show ?thesis using a b c unfolding n by (simp only:)
qed

lemma v06_grid_effect:
  assumes al: "NUM_VECTOR_UNITS T dvd ldc" and nl: "n \<le> ldc" and rf: "race_free il k"
  shows "effect (\<lambda>off. (v06_written T m n ldc off \<and> off mod ldc div 8 div 4 div 4 < gx)
                   \<and> off div ldc div 8 div 8 div 2 < gy)
           (v06_blend m n k alpha A lda B ldb beta ldc) ldc s
           (run_grid gx gy v06_NUM_THREADS_PER_BLOCK
              (gemm_v06_vectorized il T m n k alpha A lda B ldb beta ldc) s)"
proof -
  let ?F = "v06_blend m n k alpha A lda B ldb beta ldc"
  let ?W = "v06_written T m n ldc"
  let ?body = "gemm_v06_vectorized il T m n k alpha A lda B ldb beta ldc"
  let ?r8 = "\<lambda>off. off div ldc div 8"
  let ?c8 = "\<lambda>off. off mod ldc div 8"
  let ?tid = "\<lambda>wr wc tr tc. wr * 128 + (wc * 32 + (tr * 4 + tc :: nat))"
  have lev_tc: "effect (\<lambda>off. (?W off \<and> ?r8 off = (yb * 2 + wr) * 8 + tr) \<and> ?c8 off div 4 = xb * 4 + wc)
        ?F ldc s (fold (\<lambda>tc. ?body yb xb (?tid wr wc tr tc)) [0..<4] s)"
    if "wc < 4" "tr < 8" for yb xb wr wc tr s
  proof (rule fold_effect_digit)
    fix j s assume j: "j < (4::nat)"
    have "effect (\<lambda>off. ?W off \<and> ?r8 off = v06_C_row_idx yb (?tid wr wc tr j) 0 0 div 8
                   \<and> ?c8 off = v06_C_col_idx T xb (?tid wr wc tr j) 0 0 div 8)
           ?F ldc s (?body yb xb (?tid wr wc tr j) s)"
      by (rule v06_thread_effect [OF al nl rf])
    then show "effect (\<lambda>off. (?W off \<and> ?r8 off = (yb * 2 + wr) * 8 + tr)
                   \<and> ?c8 off = (xb * 4 + wc) * 4 + j) ?F ldc s (?body yb xb (?tid wr wc tr j) s)"
      unfolding v06_thread_base [OF that j] by (rule effect_cong) blast
  qed simp
  have lev_tr: "effect (\<lambda>off. (?W off \<and> ?c8 off div 4 = xb * 4 + wc) \<and> ?r8 off div 8 = yb * 2 + wr)
        ?F ldc s (fold (\<lambda>tr. fold (\<lambda>tc. ?body yb xb (?tid wr wc tr tc)) [0..<4]) [0..<8] s)"
    if "wc < 4" for yb xb wr wc s
  proof (rule fold_effect_digit)
    fix j s assume j: "j < (8::nat)"
    show "effect (\<lambda>off. (?W off \<and> ?c8 off div 4 = xb * 4 + wc) \<and> ?r8 off = (yb * 2 + wr) * 8 + j)
        ?F ldc s (fold (\<lambda>tc. ?body yb xb (?tid wr wc j tc)) [0..<4] s)"
      by (rule effect_cong [OF lev_tc [OF that j]]) blast
  qed simp
  have lev_wc: "effect (\<lambda>off. (?W off \<and> ?r8 off div 8 = yb * 2 + wr) \<and> ?c8 off div 4 div 4 = xb)
        ?F ldc s (fold (\<lambda>wc. fold (\<lambda>tr. fold (\<lambda>tc. ?body yb xb (?tid wr wc tr tc)) [0..<4]) [0..<8])
                    [0..<4] s)"
    for yb xb wr s
  proof (rule fold_effect_digit)
    fix j s assume j: "j < (4::nat)"
    show "effect (\<lambda>off. (?W off \<and> ?r8 off div 8 = yb * 2 + wr) \<and> ?c8 off div 4 = xb * 4 + j)
        ?F ldc s (fold (\<lambda>tr. fold (\<lambda>tc. ?body yb xb (?tid wr j tr tc)) [0..<4]) [0..<8] s)"
      by (rule effect_cong [OF lev_tr [OF j]]) blast
  qed simp
  have lev_wr: "effect (\<lambda>off. (?W off \<and> ?c8 off div 4 div 4 = xb) \<and> ?r8 off div 8 div 2 = yb)
        ?F ldc s (fold (\<lambda>tid. ?body yb xb tid) [0..<256] s)"
    for yb xb s
    unfolding fold_threads_256
  proof (rule fold_effect_digit)
    fix j s assume j: "j < (2::nat)"
    show "effect (\<lambda>off. (?W off \<and> ?c8 off div 4 div 4 = xb) \<and> ?r8 off div 8 = yb * 2 + j)
        ?F ldc s (fold (\<lambda>wc. fold (\<lambda>tr. fold (\<lambda>tc. ?body yb xb (?tid j wc tr tc)) [0..<4]) [0..<8])
                    [0..<4] s)"
      by (rule effect_cong [OF lev_wc]) blast
  qed simp
  have lev_bx: "effect (\<lambda>off. (?W off \<and> ?r8 off div 8 div 2 = yb) \<and> ?c8 off div 4 div 4 < gx)
        ?F ldc s (fold (\<lambda>xb. fold (\<lambda>tid. ?body yb xb tid) [0..<256]) [0..<gx] s)"
    for yb s
  proof (rule fold_effect_below)
    fix j s assume "j < gx"
    show "effect (\<lambda>off. (?W off \<and> ?r8 off div 8 div 2 = yb) \<and> ?c8 off div 4 div 4 = j)
        ?F ldc s (fold (\<lambda>tid. ?body yb j tid) [0..<256] s)"
      by (rule effect_cong [OF lev_wr]) blast
  qed
  have lev_by: "effect (\<lambda>off. (?W off \<and> ?c8 off div 4 div 4 < gx) \<and> ?r8 off div 8 div 2 < gy)
        ?F ldc s (fold (\<lambda>yb. fold (\<lambda>xb. fold (\<lambda>tid. ?body yb xb tid) [0..<256]) [0..<gx]) [0..<gy] s)"
  proof (rule fold_effect_below)
    fix j s assume "j < gy"
    show "effect (\<lambda>off. (?W off \<and> ?c8 off div 4 div 4 < gx) \<and> ?r8 off div 8 div 2 = j)
        ?F ldc s (fold (\<lambda>xb. fold (\<lambda>tid. ?body j xb tid) [0..<256]) [0..<gx] s)"
      by (rule effect_cong [OF lev_bx]) blast
  qed
  have nt: "v06_NUM_THREADS_PER_BLOCK = 256" by (simp add: tile_defs)
  show ?thesis unfolding run_grid_def nt by (rule lev_by)
qed

lemma grid_covers_cols:
  fixes d e c n gx :: nat
  assumes d: "0 < d" and de: "d * e = 128" and w: "c div d * d < n" and n: "n \<le> gx * 128"
  shows "c div 128 < gx"
proof -
  have e: "0 < e" using de by (cases e) simp_all
  have "c div d * d < gx * 128" using w n by linarith
  moreover have "gx * 128 = gx * e * d" by (metis de mult.assoc mult.commute)
  ultimately have "c div d * d < gx * e * d" by simp
  then have "c div d < gx * e" by (simp only: mult_less_cancel2)
  then have "c div d div e < gx" using e by (simp add: div_less_iff_less_mult)
  moreover have "c div 128 = c div d div e" unfolding de [symmetric] by (rule div_mult2_eq)
  ultimately show ?thesis by simp
qed

lemma grid_covers_rows:
  fixes r m gy :: nat
  assumes "r < m" and "m \<le> gy * 128"
  shows "r div 128 < gy"
  using assms by (simp add: div_less_iff_less_mult)

lemma div_chain_128:
  fixes x :: nat
  shows "x div 8 div 8 div 2 = x div 128" and "x div 8 div 4 div 4 = x div 128"
  by (simp_all add: div_mult2_eq [symmetric])

lemma grid_dims_ok:
  assumes "1 \<le> m" "m \<le> 8388480" "1 \<le> n" "n \<le> 2 ^ 32 - 128"
  shows "launch_configuration_ok (grid_dim_x n) (grid_dim_y m)"
    and "n \<le> grid_dim_x n * 128" and "m \<le> grid_dim_y m * 128"
proof -
  have m': "m \<le> 2 ^ 32 - 128" using assms(2) by simp
  have gx: "grid_dim_x n = (n + 127) div 128" by (rule grid_dim_x_no_wrap [OF assms(4)])
  have gy: "grid_dim_y m = (m + 127) div 128" by (rule grid_dim_y_no_wrap [OF m'])
  have "n \<le> (n + 128 - 1) div 128 * 128" by (rule ceil_div_bounds(1)) simp
  then show n: "n \<le> grid_dim_x n * 128" unfolding gx by simp
  have "m \<le> (m + 128 - 1) div 128 * 128" by (rule ceil_div_bounds(1)) simp
  then show m: "m \<le> grid_dim_y m * 128" unfolding gy by simp
  have "1 \<le> grid_dim_x n" using n assms(3) by (cases "grid_dim_x n") simp_all
  moreover have "grid_dim_x n \<le> 2 ^ 31 - 1" unfolding gx using assms(4) by simp
  moreover have "1 \<le> grid_dim_y m" using m assms(1) by (cases "grid_dim_y m") simp_all
  moreover have "grid_dim_y m \<le> 65535" unfolding gy using assms(2) by simp
  ultimately show "launch_configuration_ok (grid_dim_x n) (grid_dim_y m)"
    unfolding launch_configuration_ok_def by simp
qed

lemma v06_launch_effect:
  assumes al: "NUM_VECTOR_UNITS T dvd ldc" and nl: "n \<le> ldc" and rf: "race_free il k"
    and sz: "1 \<le> m" "m \<le> 8388480" "1 \<le> n" "n \<le> 2 ^ 32 - 128"
  shows "\<exists>s. launch_gemm_kernel_v06_vectorized il T m n k alpha A lda B ldb beta C ldc = Inr s
           \<and> effect (v06_written T m n ldc) (v06_blend m n k alpha A lda B ldb beta ldc) ldc
                (initial_state C) s"
proof -
  let ?gx = "grid_dim_x n" and ?gy = "grid_dim_y m"
  let ?s = "run_grid ?gx ?gy v06_NUM_THREADS_PER_BLOCK
              (gemm_v06_vectorized il T m n k alpha A lda B ldb beta ldc) (initial_state C)"
  note g = grid_dims_ok [OF sz]
  have e0: "effect (\<lambda>off. (v06_written T m n ldc off \<and> off mod ldc div 8 div 4 div 4 < ?gx)
                   \<and> off div ldc div 8 div 8 div 2 < ?gy)
           (v06_blend m n k alpha A lda B ldb beta ldc) ldc (initial_state C) ?s"
    by (rule v06_grid_effect [OF al nl rf])
  have e: "effect (v06_written T m n ldc) (v06_blend m n k alpha A lda B ldb beta ldc) ldc
            (initial_state C) ?s"
    using e0
  proof (rule effect_cong)
    fix off
    have "off mod ldc div 128 < ?gx \<and> off div ldc div 128 < ?gy" if w: "v06_written T m n ldc off"
    proof
      have de: "NUM_VECTOR_UNITS T * (VECTORIZED_THREAD_TILE_SIZE_X T * 16) = 128"
        using nvu_facts(1) [of T] by (simp add: mult.assoc [symmetric])
      show "off mod ldc div 128 < ?gx"
        using w unfolding v06_written_def
        by (intro grid_covers_cols [OF nvu_facts(2) de _ g(2)]) simp
      show "off div ldc div 128 < ?gy"
        using w unfolding v06_written_def by (intro grid_covers_rows [OF _ g(3)]) simp
    qed
    then show "((v06_written T m n ldc off \<and> off mod ldc div 8 div 4 div 4 < ?gx)
                   \<and> off div ldc div 8 div 8 div 2 < ?gy) \<longleftrightarrow> v06_written T m n ldc off"
      unfolding div_chain_128 by blast
  qed
  have "misaligned ?s = misaligned (initial_state C)" by (rule effectD(4) [OF e])
  then have "\<not> misaligned ?s" by (simp add: initial_state_def)
  then have "launch_gemm_kernel_v06_vectorized il T m n k alpha A lda B ldb beta C ldc = Inr ?s"
    unfolding launch_gemm_kernel_v06_vectorized_def kernel_status_def using g(1) by simp
  then show ?thesis using e by blast
qed

lemma fold_update_other:
  assumes "off \<notin> f ` set xs"
  shows "fold (\<lambda>p mem. mem(f p := g p)) xs mem off = mem off"
  using assms by (induction xs arbitrary: mem) simp_all

lemma fold_update_at:
  assumes "inj_on f (set xs)" and "p \<in> set xs"
  shows "fold (\<lambda>p mem. mem(f p := g p)) xs mem (f p) = g p"
  using assms
proof (induction xs arbitrary: mem)
  case Nil
  then show ?case by simp
next
  case (Cons x xs)
  have inj': "inj_on f (set xs)" using Cons.prems(1) by (simp add: inj_on_def)
  show ?case
  proof (cases "p \<in> set xs")
    case True
    then show ?thesis using Cons.IH [OF inj' True] by (simp only: fold_simps)
  next
    case False
    then have px: "p = x" using Cons.prems(2) by simp
    have "f x \<notin> f ` set xs"
    proof
      assume "f x \<in> f ` set xs"
      then obtain q where q: "q \<in> set xs" "f q = f x" by auto
      then have "q = x" using Cons.prems(1) by (simp add: inj_on_def)
      then show False using q False px by simp
    qed
    then have "fold (\<lambda>p mem. mem(f p := g p)) xs (mem(f x := g x)) (f x) = (mem(f x := g x)) (f x)"
      by (rule fold_update_other)
    then have "fold (\<lambda>p mem. mem(f p := g p)) xs (mem(f x := g x)) (f x) = g x"
      by (simp only: fun_upd_same)
    then show ?thesis unfolding px by (simp only: fold_simps)
  qed
qed

lemma fragment_offsets:
  fixes n row col off :: nat
  assumes n16: "16 dvd n" and r16: "16 dvd row" and c16: "16 dvd col" and cn: "col < n"
  shows "(off div n div 16 = row div 16 \<and> off mod n div 16 = col div 16)
         \<longleftrightarrow> (\<exists>i<16. \<exists>j<16. off = row * n + col + i * n + j)"
    and "i < 16 \<Longrightarrow> j < 16 \<Longrightarrow> (row * n + col + i * n + j) div n = row + i"
    and "i < 16 \<Longrightarrow> j < 16 \<Longrightarrow> (row * n + col + i * n + j) mod n = col + j"
proof -
  from n16 obtain l where l: "n = 16 * l" by (auto simp: dvd_def)
  from c16 obtain q where q: "col = 16 * q" by (auto simp: dvd_def)
  from r16 obtain p where p: "row = 16 * p" by (auto simp: dvd_def)
  have "q < l" using cn unfolding q l by simp
  then have "Suc q \<le> l" by simp
  then have "16 * Suc q \<le> 16 * l" by (rule mult_le_mono2)
  then have fit: "col + 16 \<le> n" unfolding q l by simp
  have dm: "(row * n + col + i * n + j) div n = row + i \<and> (row * n + col + i * n + j) mod n = col + j"
    if "i < 16" "j < 16" for i j
  proof -
    have lt: "col + j < n" using fit that by simp
    have e: "row * n + col + i * n + j = (row + i) * n + (col + j)" by (simp add: algebra_simps)
    show ?thesis unfolding e using lt by simp
  qed
  show "i < 16 \<Longrightarrow> j < 16 \<Longrightarrow> (row * n + col + i * n + j) div n = row + i" using dm by simp
  show "i < 16 \<Longrightarrow> j < 16 \<Longrightarrow> (row * n + col + i * n + j) mod n = col + j" using dm by simp
  show "(off div n div 16 = row div 16 \<and> off mod n div 16 = col div 16)
         \<longleftrightarrow> (\<exists>i<16. \<exists>j<16. off = row * n + col + i * n + j)"
  proof
    assume a: "off div n div 16 = row div 16 \<and> off mod n div 16 = col div 16"
    have "\<exists>i<16. off div n = row + i"
      using a row_digit [of 16 row "off div n"] r16 by simp
    then obtain i where i: "i < 16" "off div n = row + i" by blast
    have "\<exists>j<16. off mod n = col + j"
      using a row_digit [of 16 col "off mod n"] c16 by simp
    then obtain j where j: "j < 16" "off mod n = col + j" by blast
    have "off = (row + i) * n + (col + j)"
      using i(2) j(2) by (metis div_mult_mod_eq)
    then have "off = row * n + col + i * n + j" by (simp add: algebra_simps)
    then show "\<exists>i<16. \<exists>j<16. off = row * n + col + i * n + j" using i(1) j(1) by blast
  next
    assume "\<exists>i<16. \<exists>j<16. off = row * n + col + i * n + j"
    then obtain i j where ij: "i < 16" "j < 16" and off: "off = row * n + col + i * n + j" by blast
    have "off div n = row + i" "off mod n = col + j" unfolding off using dm [OF ij] by simp_all
    moreover have "(row + i) div 16 = row div 16" unfolding p using ij by simp
    moreover have "(col + j) div 16 = col div 16" unfolding q using ij by simp
    ultimately show "off div n div 16 = row div 16 \<and> off mod n div 16 = col div 16" by simp
  qed
qed

lemma store_matrix_sync_fold:
  "store_matrix_sync mem base frag ldm =
     fold (\<lambda>p mem. mem((\<lambda>p. base + fst p * ldm + snd p) p := (\<lambda>p. frag (fst p) (snd p)) p))
       (List.product [0..<16] [0..<16]) mem"
  unfolding store_matrix_sync_def WMMA_TILE_SIZE_X_def WMMA_TILE_SIZE_Y_def case_prod_unfold ..

lemma fragment_cells: "set (List.product [0..<16] [0..<16]) = {p. fst p < (16::nat) \<and> snd p < (16::nat)}"
  by auto

lemma v07_fragment_effect:
  assumes n16: "16 dvd n" and r16: "16 dvd row" and c16: "16 dvd col" and cn: "col < n"
    and acc: "\<And>i j. acc i j = padded_dot m n k A lda B ldb (row + i) (col + j)"
  shows "effect (\<lambda>off. off div n div 16 = row div 16 \<and> off mod n div 16 = col div 16)
           (v07_blend m n k alpha A lda B ldb beta) n s
           (v07_store_fragment alpha beta n row col acc s)"
    (is "effect ?P ?F n s ?s'")
proof -
  let ?base = "row * n + col"
  let ?f = "\<lambda>p. ?base + fst p * n + snd p"
  let ?c' = "\<lambda>i j. alpha * acc i j + beta * load_matrix_sync (C_mem s) ?base n i j"
  let ?g = "\<lambda>p. ?c' (fst p) (snd p)"
  let ?xs = "List.product [0..<16] [0..<(16::nat)]"
  let ?touched = "(\<lambda>(i, j). (row + i, col + j, ?base + i * n + j)) ` set ?xs"
  note fo = fragment_offsets [OF n16 r16 c16 cn]
  have al: "\<not> (?base mod 16 \<noteq> 0 \<or> n mod 8 \<noteq> 0)"
  proof -
    have "16 dvd ?base" using r16 c16 by simp
    moreover have "8 dvd n"
    proof -
      have "(8::nat) dvd 16" by simp
      then show ?thesis using n16 by (rule dvd_trans)
    qed
    ultimately show ?thesis by (simp add: dvd_eq_mod_eq_0)
  qed
  have s': "?s' = s\<lparr>C_mem := store_matrix_sync (C_mem s) ?base ?c' n,
               C_reads := C_reads s \<union> ?touched, C_writes := C_writes s \<union> ?touched\<rparr>"
    unfolding v07_store_fragment_def Let_def WMMA_TILE_SIZE_X_def WMMA_TILE_SIZE_Y_def
    using al by (simp only: if_False)
  have inj: "inj_on ?f (set ?xs)"
  proof (rule inj_onI)
    fix p q assume p: "p \<in> set ?xs" and q: "q \<in> set ?xs" and e: "?f p = ?f q"
    have pb: "fst p < 16" "snd p < 16" and qb: "fst q < 16" "snd q < 16"
      using p q unfolding fragment_cells by simp_all
    have "?f p div n = row + fst p" "?f q div n = row + fst q"
      "?f p mod n = col + snd p" "?f q mod n = col + snd q"
      using fo(2) [OF pb] fo(3) [OF pb] fo(2) [OF qb] fo(3) [OF qb] by simp_all
    then have "fst p = fst q" "snd p = snd q" using e by simp_all
    then show "p = q" by (rule prod_eqI)
  qed
  have mem: "store_matrix_sync (C_mem s) ?base ?c' n off
           = (if ?P off then ?F off (C_mem s off) else C_mem s off)" for off
  proof (cases "?P off")
    case True
    then obtain i j where ij: "i < 16" "j < 16" and off: "off = ?base + i * n + j"
      using fo(1) [of off] by blast
    have in_xs: "(i, j) \<in> set ?xs" using ij by simp
    have "store_matrix_sync (C_mem s) ?base ?c' n (?f (i, j)) = ?g (i, j)"
      unfolding store_matrix_sync_fold by (rule fold_update_at [OF inj in_xs])
    then have "store_matrix_sync (C_mem s) ?base ?c' n off
         = alpha * acc i j + beta * C_mem s off"
      unfolding off by (simp add: load_matrix_sync_def)
    moreover have "off div n = row + i" "off mod n = col + j"
      unfolding off using fo(2) [OF ij] fo(3) [OF ij] by simp_all
    ultimately show ?thesis using True unfolding v07_blend_def acc by simp
  next
    case False
    have "off \<notin> ?f ` set ?xs"
    proof
      assume "off \<in> ?f ` set ?xs"
      then obtain p where p: "p \<in> set ?xs" and off: "off = ?f p" by blast
      have "fst p < 16" "snd p < 16" using p unfolding fragment_cells by simp_all
      then have "\<exists>i<16. \<exists>j<16. off = ?base + i * n + j" using off by blast
      then show False using False fo(1) [of off] by blast
    qed
    then have "store_matrix_sync (C_mem s) ?base ?c' n off = C_mem s off"
      unfolding store_matrix_sync_fold by (rule fold_update_other)
    then show ?thesis unfolding if_not_P [OF False] .
  qed
  have reg: "region ?P n = ?touched"
  proof (rule set_eqI)
    fix x :: "nat \<times> nat \<times> nat"
    show "x \<in> region ?P n \<longleftrightarrow> x \<in> ?touched"
    proof
      assume "x \<in> region ?P n"
      then obtain off where x: "x = (off div n, off mod n, off)" and p: "?P off"
        unfolding region_def by blast
      from p obtain i j where ij: "i < 16" "j < 16" and off: "off = ?base + i * n + j"
        using fo(1) [of off] by blast
      have "off div n = row + i" "off mod n = col + j"
        unfolding off using fo(2) [OF ij] fo(3) [OF ij] by simp_all
      then have "x = (\<lambda>(i, j). (row + i, col + j, ?base + i * n + j)) (i, j)"
        unfolding x using off by simp
      moreover have "(i, j) \<in> set ?xs" using ij by simp
      ultimately show "x \<in> ?touched" by (rule image_eqI)
    next
      assume "x \<in> ?touched"
      then obtain i j where ij: "i < 16" "j < 16" and x: "x = (row + i, col + j, ?base + i * n + j)"
        by auto
      have "?P (?base + i * n + j)" using fo(1) [of "?base + i * n + j"] ij by blast
      moreover have "(?base + i * n + j) div n = row + i" "(?base + i * n + j) mod n = col + j"
        using fo(2) [OF ij] fo(3) [OF ij] by simp_all
      ultimately show "x \<in> region ?P n" unfolding x region_def by force
    qed
  qed
  show ?thesis unfolding effect_def reg s' using mem by simp
qed

lemma v07_accumulate_eq:
  assumes rf: "race_free il k"
  shows "v07_accumulate il m n k A lda B ldb by bx w ty tx i j =
     padded_dot m n k A lda B ldb
       (by * BLOCK_TILE_SIZE_Y + (warp_row_idx w * WARP_TILE_SIZE_Y + ty * WMMA_TILE_SIZE_Y + i))
       (bx * BLOCK_TILE_SIZE_X + (warp_col_idx w * WARP_TILE_SIZE_X + tx * WMMA_TILE_SIZE_Y + j))"
proof -
  define g where "g ty tx i j p =
      (if by * BLOCK_TILE_SIZE_Y + (warp_row_idx w * WARP_TILE_SIZE_Y + ty * WMMA_TILE_SIZE_Y + i) < m \<and> p < k
       then A_elem A lda (by * BLOCK_TILE_SIZE_Y + (warp_row_idx w * WARP_TILE_SIZE_Y + ty * WMMA_TILE_SIZE_Y + i)) p else 0)
    * (if p < k \<and> bx * BLOCK_TILE_SIZE_X + (warp_col_idx w * WARP_TILE_SIZE_X + tx * WMMA_TILE_SIZE_Y + j) < n
       then B_elem B ldb p (bx * BLOCK_TILE_SIZE_X + (warp_col_idx w * WARP_TILE_SIZE_X + tx * WMMA_TILE_SIZE_Y + j)) else 0)"
    for ty tx i j p
  define h where "h t k_i ty tx i j =
      sum_list (map (\<lambda>kk. g ty tx i j (t * BLOCK_TILE_SIZE_K + (k_i * WMMA_TILE_SIZE_K + kk)))
        [0..<WMMA_TILE_SIZE_K])" for t k_i ty tx i j
  define H where "H t ty tx i j = sum_list (map (\<lambda>k_i. h t k_i ty tx i j) [0..<NUM_WMMA_TILES_K])"
    for t ty tx i j
  have unf: "v07_accumulate il m n k A lda B ldb by bx w =
      fold (\<lambda>t acc. fold (\<lambda>k_i acc. (\<lambda>ty tx i j. acc ty tx i j + h t k_i ty tx i j))
                       [0..<NUM_WMMA_TILES_K] acc)
           [0..<num_thread_block_tiles k] (\<lambda>ty tx i j. 0)"
    unfolding v07_accumulate_def Let_def mma_sync_def fill_fragment_def
  proof (rule fold_cong [OF refl refl])
    fix t assume "t \<in> set [0..<num_thread_block_tiles k]"
    then have t: "t < num_thread_block_tiles k" by simp
    show "(\<lambda>acc_frags. fold (\<lambda>k_i acc_frags ty tx i j.
              acc_frags ty tx i j
              + sum_list (map (\<lambda>kk.
                  A_tile_read il m n k A lda B ldb by bx w t (k_i * WMMA_TILE_SIZE_K + kk)
                    (warp_row_idx w * WARP_TILE_SIZE_Y + ty * WMMA_TILE_SIZE_Y + i)
                * B_tile_read il m n k A lda B ldb by bx w t (k_i * WMMA_TILE_SIZE_K + kk)
                    (warp_col_idx w * WARP_TILE_SIZE_X + tx * WMMA_TILE_SIZE_Y + j))
                 [0..<WMMA_TILE_SIZE_K]))
            [0..<NUM_WMMA_TILES_K] acc_frags)
        = (\<lambda>acc. fold (\<lambda>k_i acc. (\<lambda>ty tx i j. acc ty tx i j + h t k_i ty tx i j))
                       [0..<NUM_WMMA_TILES_K] acc)"
      unfolding A_tile_read_race_free [OF rf t] B_tile_read_race_free [OF rf t] h_def g_def ..
  qed
  have inner: "fold (\<lambda>k_i acc. (\<lambda>ty tx i j. acc ty tx i j + h t k_i ty tx i j))
                 [0..<NUM_WMMA_TILES_K] acc
             = (\<lambda>ty tx i j. acc ty tx i j + H t ty tx i j)" for t acc
    unfolding H_def by (intro ext) (rule fold_pointwise_add)
  have Ht: "H t ty tx i j = sum_list (map (\<lambda>kk. g ty tx i j (t * BLOCK_TILE_SIZE_K + kk))
        [0..<BLOCK_TILE_SIZE_K])" for t
    unfolding H_def h_def by (simp add: tile_defs)
  have "v07_accumulate il m n k A lda B ldb by bx w ty tx i j =
          0 + sum_list (map (\<lambda>t. H t ty tx i j) [0..<num_thread_block_tiles k])"
    unfolding unf inner by (rule fold_pointwise_add)
  also have "\<dots> = sum_list (map (\<lambda>t. sum_list (map (\<lambda>kk. g ty tx i j (t * BLOCK_TILE_SIZE_K + kk))
                        [0..<BLOCK_TILE_SIZE_K])) [0..<num_thread_block_tiles k])"
    unfolding Ht by (simp only: add_0_left)
  also have "\<dots> = sum_list (map (g ty tx i j) [0..<num_thread_block_tiles k * BLOCK_TILE_SIZE_K])"
    by (rule sum_list_tiles)
  finally show ?thesis unfolding padded_dot_def g_def .
qed

lemma warp_parts:
  fixes wr wc :: nat
  assumes "wc < 4"
  shows "warp_row_idx (wr * 4 + wc) = wr" and "warp_col_idx (wr * 4 + wc) = wc"
  using assms by (simp_all add: tile_defs)

lemma v07_fragment_base:
  fixes wr wc :: nat
  assumes "wc < 4"
  shows "v07_C_row_idx yb (wr * 4 + wc) ty = 16 * ((yb * 2 + wr) * 4 + ty)"
    and "v07_C_col_idx xb (wr * 4 + wc) tx = 16 * ((xb * 4 + wc) * 2 + tx)"
  unfolding v07_C_row_idx_def v07_C_col_idx_def warp_parts [OF assms]
  by (simp_all add: tile_defs)

lemma v07_acc_at:
  assumes rf: "race_free il k"
  shows "v07_accumulate il m n k A lda B ldb yb xb w ty tx i j
       = padded_dot m n k A lda B ldb (v07_C_row_idx yb w ty + i) (v07_C_col_idx xb w tx + j)"
  unfolding v07_accumulate_eq [OF rf] v07_C_row_idx_def v07_C_col_idx_def
  by (simp add: tile_defs add.assoc)

lemma fold_warps_8:
  "fold f [0..<8] = fold (\<lambda>wr. fold (\<lambda>wc. f (wr * 4 + wc)) [0..<4]) [0..<2]"
proof -
  have a: "fold f [0..<2 * 4] = fold (\<lambda>wr. fold (\<lambda>wc. f (wr * 4 + wc)) [0..<4]) [0..<2]"
    by (rule fold_upt_mult)
  have n: "(2::nat) * 4 = 8" by simp
  show ?thesis using a unfolding n .
qed

lemma v07_grid_effect:
  assumes n16: "16 dvd n" and ng: "gx * 128 \<le> n" and rf: "race_free il k"
  shows "effect (\<lambda>off. off mod n div 16 div 2 div 4 < gx \<and> off div n div 16 div 4 div 2 < gy)
           (v07_blend m n k alpha A lda B ldb beta) n s
           (run_grid gx gy (v07_NUM_THREADS_PER_BLOCK div 32)
              (gemm_v07_vectorized il m n k alpha A lda B ldb beta ldc) s)"
proof -
  let ?F = "v07_blend m n k alpha A lda B ldb beta"
  let ?body = "gemm_v07_vectorized il m n k alpha A lda B ldb beta ldc"
  let ?acc = "v07_accumulate il m n k A lda B ldb"
  let ?r = "\<lambda>off. off div n div 16"
  let ?c = "\<lambda>off. off mod n div 16"
  have frag: "effect (\<lambda>off. ?r off = (yb * 2 + wr) * 4 + ty \<and> ?c off = (xb * 4 + wc) * 2 + tx)
        ?F n s (v07_store_fragment alpha beta n (v07_C_row_idx yb (wr * 4 + wc) ty)
                  (v07_C_col_idx xb (wr * 4 + wc) tx) (?acc yb xb (wr * 4 + wc) ty tx) s)"
    if "xb < gx" "wc < 4" "tx < 2" for yb xb wr wc ty tx s
  proof -
    note b = v07_fragment_base [OF that(2)]
    have r16: "16 dvd v07_C_row_idx yb (wr * 4 + wc) ty" unfolding b by simp
    have c16: "16 dvd v07_C_col_idx xb (wr * 4 + wc) tx" unfolding b by simp
    have "xb * 128 + 128 \<le> gx * 128" using that(1) by simp
    then have cn: "v07_C_col_idx xb (wr * 4 + wc) tx < n" unfolding b using that(2,3) ng by simp
    have "effect (\<lambda>off. ?r off = v07_C_row_idx yb (wr * 4 + wc) ty div 16
                     \<and> ?c off = v07_C_col_idx xb (wr * 4 + wc) tx div 16)
        ?F n s (v07_store_fragment alpha beta n (v07_C_row_idx yb (wr * 4 + wc) ty)
                  (v07_C_col_idx xb (wr * 4 + wc) tx) (?acc yb xb (wr * 4 + wc) ty tx) s)"
      by (rule v07_fragment_effect [OF n16 r16 c16 cn v07_acc_at [OF rf]])
    moreover have "v07_C_row_idx yb (wr * 4 + wc) ty div 16 = (yb * 2 + wr) * 4 + ty"
      unfolding b by (rule nonzero_mult_div_cancel_left) simp
    moreover have "v07_C_col_idx xb (wr * 4 + wc) tx div 16 = (xb * 4 + wc) * 2 + tx"
      unfolding b by (rule nonzero_mult_div_cancel_left) simp
    ultimately show ?thesis by (simp only:)
  qed
  have lev_tx: "effect (\<lambda>off. ?r off = (yb * 2 + wr) * 4 + ty \<and> ?c off div 2 = xb * 4 + wc)
        ?F n s (fold (\<lambda>tx. v07_store_fragment alpha beta n (v07_C_row_idx yb (wr * 4 + wc) ty)
                  (v07_C_col_idx xb (wr * 4 + wc) tx) (?acc yb xb (wr * 4 + wc) ty tx)) [0..<2] s)"
    if "xb < gx" "wc < 4" for yb xb wr wc ty s
  proof (rule fold_effect_digit)
    fix j s assume j: "j < (2::nat)"
    show "effect (\<lambda>off. ?r off = (yb * 2 + wr) * 4 + ty \<and> ?c off = (xb * 4 + wc) * 2 + j)
        ?F n s (v07_store_fragment alpha beta n (v07_C_row_idx yb (wr * 4 + wc) ty)
                  (v07_C_col_idx xb (wr * 4 + wc) j) (?acc yb xb (wr * 4 + wc) ty j) s)"
      by (rule frag [OF that j])
  qed simp
  have lev_ty: "effect (\<lambda>off. ?c off div 2 = xb * 4 + wc \<and> ?r off div 4 = yb * 2 + wr)
        ?F n s (?body yb xb (wr * 4 + wc) s)"
    if "xb < gx" "wc < 4" for yb xb wr wc s
    unfolding gemm_v07_vectorized_def v07_write_results_def NUM_WMMA_TILES_X_def
      NUM_WMMA_TILES_Y_def WARP_TILE_SIZE_X_def WARP_TILE_SIZE_Y_def WMMA_TILE_SIZE_X_def
      WMMA_TILE_SIZE_Y_def
  proof -
    have n2: "(32::nat) div 16 = 2" "(64::nat) div 16 = 4" by simp_all
    show "effect (\<lambda>off. ?c off div 2 = xb * 4 + wc \<and> ?r off div 4 = yb * 2 + wr) ?F n s
       (fold (\<lambda>ty. fold (\<lambda>tx. v07_store_fragment alpha beta n (v07_C_row_idx yb (wr * 4 + wc) ty)
                  (v07_C_col_idx xb (wr * 4 + wc) tx) (?acc yb xb (wr * 4 + wc) ty tx)) [0..<32 div 16])
          [0..<64 div 16] s)"
      unfolding n2
    proof (rule fold_effect_digit)
      fix j s assume j: "j < (4::nat)"
      show "effect (\<lambda>off. ?c off div 2 = xb * 4 + wc \<and> ?r off = (yb * 2 + wr) * 4 + j)
        ?F n s (fold (\<lambda>tx. v07_store_fragment alpha beta n (v07_C_row_idx yb (wr * 4 + wc) j)
                  (v07_C_col_idx xb (wr * 4 + wc) tx) (?acc yb xb (wr * 4 + wc) j tx)) [0..<2] s)"
        by (rule effect_cong [OF lev_tx [OF that]]) blast
    qed simp
  qed
  have lev_wc: "effect (\<lambda>off. ?r off div 4 = yb * 2 + wr \<and> ?c off div 2 div 4 = xb)
        ?F n s (fold (\<lambda>wc. ?body yb xb (wr * 4 + wc)) [0..<4] s)"
    if "xb < gx" for yb xb wr s
  proof (rule fold_effect_digit)
    fix j s assume j: "j < (4::nat)"
    show "effect (\<lambda>off. ?r off div 4 = yb * 2 + wr \<and> ?c off div 2 = xb * 4 + j)
        ?F n s (?body yb xb (wr * 4 + j) s)"
      by (rule effect_cong [OF lev_ty [OF that j]]) blast
  qed simp
  have lev_wr: "effect (\<lambda>off. ?c off div 2 div 4 = xb \<and> ?r off div 4 div 2 = yb)
        ?F n s (fold (\<lambda>w. ?body yb xb w) [0..<8] s)"
    if "xb < gx" for yb xb s
    unfolding fold_warps_8
  proof (rule fold_effect_digit)
    fix j s assume j: "j < (2::nat)"
    show "effect (\<lambda>off. ?c off div 2 div 4 = xb \<and> ?r off div 4 = yb * 2 + j)
        ?F n s (fold (\<lambda>wc. ?body yb xb (j * 4 + wc)) [0..<4] s)"
      by (rule effect_cong [OF lev_wc [OF that]]) blast
  qed simp
  have lev_bx: "effect (\<lambda>off. ?r off div 4 div 2 = yb \<and> ?c off div 2 div 4 < gx)
        ?F n s (fold (\<lambda>xb. fold (\<lambda>w. ?body yb xb w) [0..<8]) [0..<gx] s)"
    for yb s
  proof (rule fold_effect_below)
    fix j s assume j: "j < gx"
    show "effect (\<lambda>off. ?r off div 4 div 2 = yb \<and> ?c off div 2 div 4 = j)
        ?F n s (fold (\<lambda>w. ?body yb j w) [0..<8] s)"
      by (rule effect_cong [OF lev_wr [OF j]]) blast
  qed
  have lev_by: "effect (\<lambda>off. ?c off div 2 div 4 < gx \<and> ?r off div 4 div 2 < gy)
        ?F n s (fold (\<lambda>yb. fold (\<lambda>xb. fold (\<lambda>w. ?body yb xb w) [0..<8]) [0..<gx]) [0..<gy] s)"
  proof (rule fold_effect_below)
    fix j s assume "j < gy"
    show "effect (\<lambda>off. ?c off div 2 div 4 < gx \<and> ?r off div 4 div 2 = j)
        ?F n s (fold (\<lambda>xb. fold (\<lambda>w. ?body j xb w) [0..<8]) [0..<gx] s)"
      by (rule effect_cong [OF lev_bx]) blast
  qed
  have nt: "v07_NUM_THREADS_PER_BLOCK div 32 = 8" by (simp add: tile_defs)
  show ?thesis unfolding run_grid_def nt by (rule lev_by)
qed

lemma div_chain_128': 
  fixes x :: nat
  shows "x div 16 div 2 div 4 = x div 128" and "x div 16 div 4 div 2 = x div 128"
  by (simp_all add: div_mult2_eq [symmetric])

lemma grid_dim_exact:
  assumes "128 dvd n" and "n \<le> 2 ^ 32 - 128"
  shows "grid_dim_x n * 128 = n" and "grid_dim_y n * 128 = n"
proof -
  from assms(1) obtain q where q: "n = 128 * q" by (auto simp: dvd_def)
  have d: "(n + 127) div 128 = q" unfolding q by simp
  have "grid_dim_x n = q" unfolding grid_dim_x_no_wrap [OF assms(2)] by (rule d)
  then show "grid_dim_x n * 128 = n" unfolding q by simp
  have "grid_dim_y n = q" unfolding grid_dim_y_no_wrap [OF assms(2)] by (rule d)
  then show "grid_dim_y n * 128 = n" unfolding q by simp
qed

lemma v07_launch_effect:
  assumes dm: "128 dvd m" and dn: "128 dvd n" and rf: "race_free il k"
    and sz: "1 \<le> m" "m \<le> 8388480" "1 \<le> n" "n \<le> 2 ^ 32 - 128"
  shows "\<exists>s. launch_gemm_kernel_v07_vectorized il m n k alpha A lda B ldb beta C ldc = Inr s
           \<and> effect (\<lambda>off. off < m * n) (v07_blend m n k alpha A lda B ldb beta) n
                (initial_state C) s"
proof -
  let ?gx = "grid_dim_x n" and ?gy = "grid_dim_y m"
  let ?s = "run_grid ?gx ?gy (v07_NUM_THREADS_PER_BLOCK div 32)
              (gemm_v07_vectorized il m n k alpha A lda B ldb beta ldc) (initial_state C)"
  note g = grid_dims_ok [OF sz]
  have m': "m \<le> 2 ^ 32 - 128" using sz(2) by simp
  have gx: "?gx * 128 = n" by (rule grid_dim_exact(1) [OF dn sz(4)])
  have gy: "?gy * 128 = m" by (rule grid_dim_exact(2) [OF dm m'])
  have n16: "16 dvd n"
  proof -
    have "(16::nat) dvd 128" by simp
    then show ?thesis using dn by (rule dvd_trans)
  qed
  have n0: "0 < n" using sz(3) by simp
  have e0: "effect (\<lambda>off. off mod n div 16 div 2 div 4 < ?gx \<and> off div n div 16 div 4 div 2 < ?gy)
           (v07_blend m n k alpha A lda B ldb beta) n (initial_state C) ?s"
    by (rule v07_grid_effect [OF n16 _ rf]) (simp add: gx)
  have e: "effect (\<lambda>off. off < m * n) (v07_blend m n k alpha A lda B ldb beta) n (initial_state C) ?s"
    using e0
  proof (rule effect_cong)
    fix off
    have "off mod n < ?gx * 128" unfolding gx using n0 by simp
    then have c: "off mod n div 128 < ?gx" by (simp add: div_less_iff_less_mult)
    have "off div n div 128 < ?gy \<longleftrightarrow> off div n < ?gy * 128"
      by (simp add: div_less_iff_less_mult)
    also have "\<dots> \<longleftrightarrow> off < m * n" unfolding gy using n0 by (simp add: div_less_iff_less_mult)
    finally show "(off mod n div 16 div 2 div 4 < ?gx \<and> off div n div 16 div 4 div 2 < ?gy)
        \<longleftrightarrow> off < m * n"
      unfolding div_chain_128' using c by simp
  qed
  have "misaligned ?s = misaligned (initial_state C)" by (rule effectD(4) [OF e])
  then have "\<not> misaligned ?s" by (simp add: initial_state_def)
  then have "launch_gemm_kernel_v07_vectorized il m n k alpha A lda B ldb beta C ldc = Inr ?s"
    unfolding launch_gemm_kernel_v07_vectorized_def kernel_status_def using g(1) by simp
  then show ?thesis using e by blast
qed

section \<open>Results of a launch\<close>

lemma offset_of_element:
  fixes i j ld :: nat
  assumes "j < ld"
  shows "(i * ld + j) div ld = i" and "(i * ld + j) mod ld = j"
  using assms by simp_all

lemma v06_elements:
  assumes al: "NUM_VECTOR_UNITS T dvd ldc" and nl: "n \<le> ldc" and rf: "race_free il k"
    and sz: "1 \<le> m" "m \<le> 8388480" "1 \<le> n" "n \<le> 2 ^ 32 - 128"
  shows "\<exists>s. launch_gemm_kernel_v06_vectorized il T m n k alpha A lda B ldb beta C ldc = Inr s
           \<and> C_writes s = C_reads s
           \<and> (\<forall>i<m. \<forall>j<n. C_mem s (i * ldc + j)
                                = gemm_ref alpha A lda B ldb beta k i j (C (i * ldc + j))
                            \<and> (i, j, i * ldc + j) \<in> C_reads s)"
proof -
  from v06_launch_effect [OF al nl rf sz]
  obtain s where l: "launch_gemm_kernel_v06_vectorized il T m n k alpha A lda B ldb beta C ldc = Inr s"
    and e: "effect (v06_written T m n ldc) (v06_blend m n k alpha A lda B ldb beta ldc) ldc
                (initial_state C) s" by blast
  have w: "C_writes s = region (v06_written T m n ldc) ldc"
    using effectD(2) [OF e] by (simp add: initial_state_def)
  have r: "C_reads s = region (v06_written T m n ldc) ldc"
    using effectD(3) [OF e] by (simp add: initial_state_def)
  have el: "C_mem s (i * ldc + j) = gemm_ref alpha A lda B ldb beta k i j (C (i * ldc + j))
          \<and> (i, j, i * ldc + j) \<in> C_reads s" if i: "i < m" and j: "j < n" for i j
  proof -
    let ?off = "i * ldc + j"
    have jl: "j < ldc" using j nl by simp
    note dm = offset_of_element [OF jl, of i]
    have "j div NUM_VECTOR_UNITS T * NUM_VECTOR_UNITS T \<le> j" by simp
    then have "j div NUM_VECTOR_UNITS T * NUM_VECTOR_UNITS T < n" using j by (rule le_less_trans)
    then have wr: "v06_written T m n ldc ?off"
      unfolding v06_written_def dm using i by simp
    have "C_mem s ?off = v06_blend m n k alpha A lda B ldb beta ldc ?off (C_mem (initial_state C) ?off)"
      using effectD(1) [OF e, of ?off] wr by simp
    also have "\<dots> = alpha * padded_dot m n k A lda B ldb i j + beta * C ?off"
      unfolding v06_blend_def dm by (simp add: initial_state_def)
    also have "\<dots> = gemm_ref alpha A lda B ldb beta k i j (C ?off)"
      unfolding gemm_ref_def padded_dot_eq_dot [OF i j] ..
    finally have v: "C_mem s ?off = gemm_ref alpha A lda B ldb beta k i j (C ?off)" .
    have "(?off div ldc, ?off mod ldc, ?off) \<in> region (v06_written T m n ldc) ldc"
      unfolding region_def using wr by blast
    then have "(i, j, ?off) \<in> C_reads s" unfolding r dm .
    then show ?thesis using v by simp
  qed
  show ?thesis using l w r el by auto
qed

lemma v07_elements:
  assumes dm: "128 dvd m" and dn: "128 dvd n" and rf: "race_free il k"
    and sz: "1 \<le> m" "m \<le> 8388480" "1 \<le> n" "n \<le> 2 ^ 32 - 128"
  shows "\<exists>s. launch_gemm_kernel_v07_vectorized il m n k alpha A lda B ldb beta C ldc = Inr s
           \<and> C_writes s = C_reads s
           \<and> (\<forall>i<m. \<forall>j<n. C_mem s (i * n + j)
                                = gemm_ref alpha A lda B ldb beta k i j (C (i * n + j))
                            \<and> (i, j, i * n + j) \<in> C_reads s)"
proof -
  from v07_launch_effect [OF dm dn rf sz]
  obtain s where l: "launch_gemm_kernel_v07_vectorized il m n k alpha A lda B ldb beta C ldc = Inr s"
    and e: "effect (\<lambda>off. off < m * n) (v07_blend m n k alpha A lda B ldb beta) n
                (initial_state C) s" by blast
  have w: "C_writes s = region (\<lambda>off. off < m * n) n"
    using effectD(2) [OF e] by (simp add: initial_state_def)
  have r: "C_reads s = region (\<lambda>off. off < m * n) n"
    using effectD(3) [OF e] by (simp add: initial_state_def)
  have el: "C_mem s (i * n + j) = gemm_ref alpha A lda B ldb beta k i j (C (i * n + j))
          \<and> (i, j, i * n + j) \<in> C_reads s" if i: "i < m" and j: "j < n" for i j
  proof -
    let ?off = "i * n + j"
    note dm = offset_of_element [OF j, of i]
    have "Suc i \<le> m" using i by simp
    then have "Suc i * n \<le> m * n" by (rule mult_le_mono1)
    then have wr: "?off < m * n" using j by simp
    have "C_mem s ?off = v07_blend m n k alpha A lda B ldb beta ?off (C_mem (initial_state C) ?off)"
      using effectD(1) [OF e, of ?off] wr by simp
    also have "\<dots> = alpha * padded_dot m n k A lda B ldb i j + beta * C ?off"
      unfolding v07_blend_def dm by (simp add: initial_state_def)
    also have "\<dots> = gemm_ref alpha A lda B ldb beta k i j (C ?off)"
      unfolding gemm_ref_def padded_dot_eq_dot [OF i j] ..
    finally have v: "C_mem s ?off = gemm_ref alpha A lda B ldb beta k i j (C ?off)" .
    have "(?off div n, ?off mod n, ?off) \<in> region (\<lambda>off. off < m * n) n"
      unfolding region_def using wr by blast
    then have "(i, j, ?off) \<in> C_reads s" unfolding r dm .
    then show ?thesis using v by simp
  qed
  show ?thesis using l w r el by auto
qed

lemma v06_store_vector_sticky:
  "misaligned s \<Longrightarrow> misaligned (v06_store_vector T alpha beta ldc row col acc s)"
  by (simp add: v06_store_vector_def Let_def)

lemma v06_write_results_sticky:
  assumes "misaligned s"
  shows "misaligned (v06_write_results T m n alpha beta ldc yb xb tid acc s)"
  unfolding v06_write_results_def Let_def
  by (intro fold_invariant [where I = misaligned] assms) (simp add: v06_store_vector_sticky)

lemma v06_write_results_faults:
  assumes idx: "rr < NUM_THREAD_TILES_PER_WARP_Y" "rc < NUM_THREAD_TILES_PER_WARP_X"
      "y < THREAD_TILE_SIZE_Y" "xv < VECTORIZED_THREAD_TILE_SIZE_X T"
    and guard: "v06_C_row_idx yb tid rr y < m" "v06_C_col_idx T xb tid rc xv < n"
    and mis: "(v06_C_row_idx yb tid rr y * ldc + v06_C_col_idx T xb tid rc xv) mod NUM_VECTOR_UNITS T \<noteq> 0"
  shows "misaligned (v06_write_results T m n alpha beta ldc yb xb tid acc s)"
  unfolding v06_write_results_def Let_def
proof (rule fold_reaches [where i = rr])
  show "rr \<in> set [0..<NUM_THREAD_TILES_PER_WARP_Y]" using idx(1) by simp
next
  fix s
  show "misaligned (fold (\<lambda>rc. fold (\<lambda>y. fold (\<lambda>xv s.
      if v06_C_row_idx yb tid rr y < m \<and> v06_C_col_idx T xb tid rc xv < n
      then v06_store_vector T alpha beta ldc (v06_C_row_idx yb tid rr y) (v06_C_col_idx T xb tid rc xv)
             (\<lambda>i. acc rr rc y (xv * NUM_VECTOR_UNITS T + i)) s
      else s) [0..<VECTORIZED_THREAD_TILE_SIZE_X T]) [0..<THREAD_TILE_SIZE_Y])
      [0..<NUM_THREAD_TILES_PER_WARP_X] s)"
  proof (rule fold_reaches [where i = rc])
    show "rc \<in> set [0..<NUM_THREAD_TILES_PER_WARP_X]" using idx(2) by simp
  next
    fix s
    show "misaligned (fold (\<lambda>y. fold (\<lambda>xv s.
      if v06_C_row_idx yb tid rr y < m \<and> v06_C_col_idx T xb tid rc xv < n
      then v06_store_vector T alpha beta ldc (v06_C_row_idx yb tid rr y) (v06_C_col_idx T xb tid rc xv)
             (\<lambda>i. acc rr rc y (xv * NUM_VECTOR_UNITS T + i)) s
      else s) [0..<VECTORIZED_THREAD_TILE_SIZE_X T]) [0..<THREAD_TILE_SIZE_Y] s)"
    proof (rule fold_reaches [where i = y])
      show "y \<in> set [0..<THREAD_TILE_SIZE_Y]" using idx(3) by simp
    next
      fix s
      show "misaligned (fold (\<lambda>xv s.
        if v06_C_row_idx yb tid rr y < m \<and> v06_C_col_idx T xb tid rc xv < n
        then v06_store_vector T alpha beta ldc (v06_C_row_idx yb tid rr y) (v06_C_col_idx T xb tid rc xv)
             (\<lambda>i. acc rr rc y (xv * NUM_VECTOR_UNITS T + i)) s
        else s) [0..<VECTORIZED_THREAD_TILE_SIZE_X T] s)"
      proof (rule fold_reaches [where i = xv])
        show "xv \<in> set [0..<VECTORIZED_THREAD_TILE_SIZE_X T]" using idx(4) by simp
      next
        fix s
        show "misaligned (if v06_C_row_idx yb tid rr y < m \<and> v06_C_col_idx T xb tid rc xv < n
          then v06_store_vector T alpha beta ldc (v06_C_row_idx yb tid rr y) (v06_C_col_idx T xb tid rc xv)
             (\<lambda>i. acc rr rc y (xv * NUM_VECTOR_UNITS T + i)) s
          else s)"
          using guard mis by (simp add: v06_store_vector_def Let_def)
      next
        fix j and s :: gpu_state assume "misaligned s"
        then show "misaligned (if v06_C_row_idx yb tid rr y < m \<and> v06_C_col_idx T xb tid rc j < n
          then v06_store_vector T alpha beta ldc (v06_C_row_idx yb tid rr y) (v06_C_col_idx T xb tid rc j)
             (\<lambda>i. acc rr rc y (j * NUM_VECTOR_UNITS T + i)) s
          else s)"
          by (simp add: v06_store_vector_sticky)
      qed
    next
      fix j and s :: gpu_state assume "misaligned s"
      then show "misaligned (fold (\<lambda>xv s.
        if v06_C_row_idx yb tid rr j < m \<and> v06_C_col_idx T xb tid rc xv < n
        then v06_store_vector T alpha beta ldc (v06_C_row_idx yb tid rr j) (v06_C_col_idx T xb tid rc xv)
             (\<lambda>i. acc rr rc j (xv * NUM_VECTOR_UNITS T + i)) s
        else s) [0..<VECTORIZED_THREAD_TILE_SIZE_X T] s)"
        by (intro fold_invariant [where I = misaligned]) (simp_all add: v06_store_vector_sticky)
    qed
  next
    fix j and s :: gpu_state assume "misaligned s"
    then show "misaligned (fold (\<lambda>y. fold (\<lambda>xv s.
      if v06_C_row_idx yb tid rr y < m \<and> v06_C_col_idx T xb tid j xv < n
      then v06_store_vector T alpha beta ldc (v06_C_row_idx yb tid rr y) (v06_C_col_idx T xb tid j xv)
             (\<lambda>i. acc rr j y (xv * NUM_VECTOR_UNITS T + i)) s
      else s) [0..<VECTORIZED_THREAD_TILE_SIZE_X T]) [0..<THREAD_TILE_SIZE_Y] s)"
      by (intro fold_invariant [where I = misaligned]) (simp_all add: v06_store_vector_sticky)
  qed
next
  fix j and s :: gpu_state assume "misaligned s"
  then show "misaligned (fold (\<lambda>rc. fold (\<lambda>y. fold (\<lambda>xv s.
      if v06_C_row_idx yb tid j y < m \<and> v06_C_col_idx T xb tid rc xv < n
      then v06_store_vector T alpha beta ldc (v06_C_row_idx yb tid j y) (v06_C_col_idx T xb tid rc xv)
             (\<lambda>i. acc j rc y (xv * NUM_VECTOR_UNITS T + i)) s
      else s) [0..<VECTORIZED_THREAD_TILE_SIZE_X T]) [0..<THREAD_TILE_SIZE_Y])
      [0..<NUM_THREAD_TILES_PER_WARP_X] s)"
    by (intro fold_invariant [where I = misaligned]) (simp_all add: v06_store_vector_sticky)
qed

lemma run_grid_reaches:
  assumes idx: "yb < gy" "xb < gx" "w < nt"
    and hit: "\<And>s. Q (body yb xb w s)"
    and keep: "\<And>yb xb w s. Q s \<Longrightarrow> Q (body yb xb w s)"
  shows "Q (run_grid gx gy nt body s)"
  unfolding run_grid_def
proof (rule fold_reaches [where i = yb])
  show "yb \<in> set [0..<gy]" using idx(1) by simp
next
  fix s
  show "Q (fold (\<lambda>bx. fold (\<lambda>tid. body yb bx tid) [0..<nt]) [0..<gx] s)"
  proof (rule fold_reaches [where i = xb])
    show "xb \<in> set [0..<gx]" using idx(2) by simp
  next
    fix s
    show "Q (fold (\<lambda>tid. body yb xb tid) [0..<nt] s)"
    proof (rule fold_reaches [where i = w])
      show "w \<in> set [0..<nt]" using idx(3) by simp
    next
      fix s show "Q (body yb xb w s)" by (rule hit)
    next
      fix j s assume "Q s" then show "Q (body yb xb j s)" by (rule keep)
    qed
  next
    fix j s assume "Q s"
    then show "Q (fold (\<lambda>tid. body yb j tid) [0..<nt] s)"
      by (intro fold_invariant [where I = Q]) (simp_all add: keep)
  qed
next
  fix j s assume "Q s"
  then show "Q (fold (\<lambda>bx. fold (\<lambda>tid. body j bx tid) [0..<nt]) [0..<gx] s)"
    by (intro fold_invariant [where I = Q]) (simp_all add: keep)
qed

lemma v06_launch_faults:
  assumes ok: "launch_configuration_ok (grid_dim_x n) (grid_dim_y m)"
    and blk: "yb < grid_dim_y m" "xb < grid_dim_x n" "tid < v06_NUM_THREADS_PER_BLOCK"
    and idx: "rr < NUM_THREAD_TILES_PER_WARP_Y" "rc < NUM_THREAD_TILES_PER_WARP_X"
      "y < THREAD_TILE_SIZE_Y" "xv < VECTORIZED_THREAD_TILE_SIZE_X T"
    and guard: "v06_C_row_idx yb tid rr y < m" "v06_C_col_idx T xb tid rc xv < n"
    and mis: "(v06_C_row_idx yb tid rr y * ldc + v06_C_col_idx T xb tid rc xv) mod NUM_VECTOR_UNITS T \<noteq> 0"
  shows "launch_gemm_kernel_v06_vectorized il T m n k alpha A lda B ldb beta C ldc = Inl MisalignedAddress"
proof -
  have "misaligned (run_grid (grid_dim_x n) (grid_dim_y m) v06_NUM_THREADS_PER_BLOCK
               (gemm_v06_vectorized il T m n k alpha A lda B ldb beta ldc) (initial_state C))"
  proof (rule run_grid_reaches [OF blk])
    fix s
    show "misaligned (gemm_v06_vectorized il T m n k alpha A lda B ldb beta ldc yb xb tid s)"
      unfolding gemm_v06_vectorized_def by (rule v06_write_results_faults [OF idx guard mis])
  next
    fix yb xb w and s :: gpu_state assume "misaligned s"
    then show "misaligned (gemm_v06_vectorized il T m n k alpha A lda B ldb beta ldc yb xb w s)"
      unfolding gemm_v06_vectorized_def by (rule v06_write_results_sticky)
  qed
  then show ?thesis
    unfolding launch_gemm_kernel_v06_vectorized_def kernel_status_def using ok by simp
qed

lemma elem_one_times: "Finite 1 * x = x"
  by (cases x) simp_all


lemma elem_plus_nonfinite: "x + NonFinite = NonFinite"
  by (cases x) simp_all

lemma elem_finite_times_zero: "Finite a * 0 = 0"
  by (simp add: zero_elem_def)

lemma elem_zero_times: "x \<noteq> NonFinite \<Longrightarrow> Finite 0 * x = 0"
  by (cases x) (simp_all add: zero_elem_def)



lemma dot_k0: "dot A lda B ldb 0 i j = 0"
  by (simp add: dot_def)

lemma race_free_one_tile: "k \<le> 16 \<Longrightarrow> race_free il k"
  by (simp add: race_free_def BLOCK_TILE_SIZE_K_def)

lemma launch_empty:
  "launch_gemm_kernel_v06_vectorized il T 0 n k alpha A lda B ldb beta C ldc = Inl InvalidConfiguration"
  "launch_gemm_kernel_v06_vectorized il T m 0 k alpha A lda B ldb beta C ldc = Inl InvalidConfiguration"
  "launch_gemm_kernel_v07_vectorized il 0 n k alpha A lda B ldb beta C ldc = Inl InvalidConfiguration"
  "launch_gemm_kernel_v07_vectorized il m 0 k alpha A lda B ldb beta C ldc = Inl InvalidConfiguration"
  by (simp_all add: launch_gemm_kernel_v06_vectorized_def launch_gemm_kernel_v07_vectorized_def
      launch_configuration_ok_def grid_dim_x_def grid_dim_y_def BLOCK_TILE_SIZE_X_def
      BLOCK_TILE_SIZE_Y_def)

lemma run_grid_invariant:
  assumes step: "\<And>yb xb w s. yb < gy \<Longrightarrow> xb < gx \<Longrightarrow> w < nt \<Longrightarrow> I s \<Longrightarrow> I (body yb xb w s)"
    and init: "I s"
  shows "I (run_grid gx gy nt body s)"
  unfolding run_grid_def
proof (rule fold_invariant [where I = I])
  show "I s" by (rule init)
next
  fix yb s assume yb: "yb \<in> set [0..<gy]" and s: "I s"
  show "I (fold (\<lambda>bx. fold (\<lambda>tid. body yb bx tid) [0..<nt]) [0..<gx] s)"
  proof (rule fold_invariant [where I = I])
    show "I s" by (rule s)
  next
    fix xb s assume xb: "xb \<in> set [0..<gx]" and s: "I s"
    show "I (fold (\<lambda>tid. body yb xb tid) [0..<nt] s)"
    proof (rule fold_invariant [where I = I])
      show "I s" by (rule s)
    next
      fix w s assume "w \<in> set [0..<nt]" and "I s"
      then show "I (body yb xb w s)" using yb xb by (intro step) simp_all
    qed
  qed
qed

lemma v07_store_fragment_aligned:
  assumes "16 dvd n" and "16 dvd row" and "16 dvd col"
  shows "misaligned (v07_store_fragment alpha beta n row col f s) = misaligned s"
    and "C_writes (v07_store_fragment alpha beta n row col f s)
           = C_writes s \<union> {(row + i, col + j, (row + i) * n + (col + j)) | i j. i < 16 \<and> j < 16}"
    and "C_reads (v07_store_fragment alpha beta n row col f s)
           = C_reads s \<union> {(row + i, col + j, (row + i) * n + (col + j)) | i j. i < 16 \<and> j < 16}"
proof -
  have b: "(row * n + col) mod 16 = 0"
    using assms by (simp add: mod_eq_0_iff_dvd)
  have "(8::nat) dvd 16" by simp
  then have "8 dvd n" using assms(1) by (rule dvd_trans)
  then have n8: "n mod 8 = 0" by (simp add: mod_eq_0_iff_dvd)
  have t: "(\<lambda>(i, j). (row + i, col + j, row * n + col + i * n + j))
             ` ({0..<16} \<times> {0..<16})
           = {(row + i, col + j, (row + i) * n + (col + j)) | i j. i < 16 \<and> j < 16}"
    by (auto simp add: image_iff algebra_simps)
  show "misaligned (v07_store_fragment alpha beta n row col f s) = misaligned s"
    unfolding v07_store_fragment_def Let_def using b n8 by simp
  show "C_writes (v07_store_fragment alpha beta n row col f s)
           = C_writes s \<union> {(row + i, col + j, (row + i) * n + (col + j)) | i j. i < 16 \<and> j < 16}"
    unfolding v07_store_fragment_def Let_def using b n8
    by (simp add: WMMA_TILE_SIZE_X_def WMMA_TILE_SIZE_Y_def t)
  show "C_reads (v07_store_fragment alpha beta n row col f s)
           = C_reads s \<union> {(row + i, col + j, (row + i) * n + (col + j)) | i j. i < 16 \<and> j < 16}"
    unfolding v07_store_fragment_def Let_def using b n8
    by (simp add: WMMA_TILE_SIZE_X_def WMMA_TILE_SIZE_Y_def t)
qed

lemma v07_C_idx_dvd: "16 dvd v07_C_row_idx yb w ty" "16 dvd v07_C_col_idx xb w tx"
  by (simp_all add: v07_C_row_idx_def v07_C_col_idx_def tile_defs)

lemma v07_C_idx_bound:
  assumes "w < 8" and "ty < 4" and "tx < 2"
  shows "v07_C_row_idx yb w ty + 16 \<le> (yb + 1) * 128"
    and "v07_C_col_idx xb w tx + 16 \<le> (xb + 1) * 128"
proof -
  have "w div 4 \<le> 1" using assms(1) by simp
  then show "v07_C_row_idx yb w ty + 16 \<le> (yb + 1) * 128"
    using assms(2) by (simp add: v07_C_row_idx_def tile_defs)
  have "w mod 4 \<le> 3" by simp
  then show "v07_C_col_idx xb w tx + 16 \<le> (xb + 1) * 128"
    using assms(3) by (simp add: v07_C_col_idx_def tile_defs)
qed

lemma v07_body_in_bounds:
  assumes n16: "16 dvd n" and w: "w < 8"
    and yb: "(yb + 1) * 128 \<le> M" and xb: "(xb + 1) * 128 \<le> N"
    and inv: "\<not> misaligned s \<and> (\<forall>x \<in> C_reads s \<union> C_writes s.
                 fst x < M \<and> fst (snd x) < N \<and> snd (snd x) = fst x * n + fst (snd x))"
  shows "\<not> misaligned (gemm_v07_vectorized il m n k alpha A lda B ldb beta ldc yb xb w s)
       \<and> (\<forall>x \<in> C_reads (gemm_v07_vectorized il m n k alpha A lda B ldb beta ldc yb xb w s)
               \<union> C_writes (gemm_v07_vectorized il m n k alpha A lda B ldb beta ldc yb xb w s).
                 fst x < M \<and> fst (snd x) < N \<and> snd (snd x) = fst x * n + fst (snd x))"
proof -
  let ?I = "\<lambda>s. \<not> misaligned s \<and> (\<forall>x \<in> C_reads s \<union> C_writes s.
                 fst x < M \<and> fst (snd x) < N \<and> snd (snd x) = fst x * n + fst (snd x))"
  have step: "?I (v07_store_fragment alpha beta n (v07_C_row_idx yb w ty) (v07_C_col_idx xb w tx) f s)"
    if "ty < 4" "tx < 2" "?I s" for ty tx f and s :: gpu_state
  proof -
    note a = v07_store_fragment_aligned [OF n16 v07_C_idx_dvd(1) v07_C_idx_dvd(2)]
    have r: "v07_C_row_idx yb w ty + 16 \<le> M"
      using v07_C_idx_bound(1) [OF w that(1) that(2), of yb] yb by simp
    have c: "v07_C_col_idx xb w tx + 16 \<le> N"
      using v07_C_idx_bound(2) [OF w that(1) that(2), of xb] xb by simp
    have "\<forall>x \<in> {(v07_C_row_idx yb w ty + i, v07_C_col_idx xb w tx + j,
                  (v07_C_row_idx yb w ty + i) * n + (v07_C_col_idx xb w tx + j)) | i j. i < 16 \<and> j < 16}.
            fst x < M \<and> fst (snd x) < N \<and> snd (snd x) = fst x * n + fst (snd x)"
      using r c by auto
    then show ?thesis using that(3) unfolding a by blast
  qed
  show ?thesis
    unfolding gemm_v07_vectorized_def v07_write_results_def
  proof (rule fold_invariant [where I = ?I])
    show "?I s" by (rule inv)
  next
    fix ty and s :: gpu_state assume ty: "ty \<in> set [0..<NUM_WMMA_TILES_Y]" and s: "?I s"
    have ty4: "ty < 4" using ty by (simp add: tile_defs)
    show "?I (fold (\<lambda>tx. v07_store_fragment alpha beta n (v07_C_row_idx yb w ty)
                 (v07_C_col_idx xb w tx) (v07_accumulate il m n k A lda B ldb yb xb w ty tx))
               [0..<NUM_WMMA_TILES_X] s)"
    proof (rule fold_invariant [where I = ?I])
      show "?I s" by (rule s)
    next
      fix tx and s :: gpu_state assume tx: "tx \<in> set [0..<NUM_WMMA_TILES_X]" and s: "?I s"
      have tx2: "tx < 2" using tx by (simp add: tile_defs)
      show "?I (v07_store_fragment alpha beta n (v07_C_row_idx yb w ty) (v07_C_col_idx xb w tx)
                (v07_accumulate il m n k A lda B ldb yb xb w ty tx) s)"
        by (rule step [OF ty4 tx2 s])
    qed
  qed
qed

lemma v07_launch_in_bounds:
  assumes dm: "128 dvd m" and dn: "128 dvd n"
    and sz: "1 \<le> m" "m \<le> 8388480" "1 \<le> n" "n \<le> 2 ^ 32 - 128"
  shows "\<exists>s. launch_gemm_kernel_v07_vectorized il m n k alpha A lda B ldb beta C ldc = Inr s
           \<and> (\<forall>x \<in> C_reads s \<union> C_writes s.
                 fst x < m \<and> fst (snd x) < n \<and> snd (snd x) = fst x * n + fst (snd x))"
proof -
  let ?gx = "grid_dim_x n" and ?gy = "grid_dim_y m"
  let ?s = "run_grid ?gx ?gy (v07_NUM_THREADS_PER_BLOCK div 32)
              (gemm_v07_vectorized il m n k alpha A lda B ldb beta ldc) (initial_state C)"
  let ?I = "\<lambda>s. \<not> misaligned s \<and> (\<forall>x \<in> C_reads s \<union> C_writes s.
                 fst x < m \<and> fst (snd x) < n \<and> snd (snd x) = fst x * n + fst (snd x))"
  note g = grid_dims_ok [OF sz]
  have m': "m \<le> 2 ^ 32 - 128" using sz(2) by simp
  have gx: "?gx * 128 = n" by (rule grid_dim_exact(1) [OF dn sz(4)])
  have gy: "?gy * 128 = m" by (rule grid_dim_exact(2) [OF dm m'])
  have n16: "16 dvd n"
  proof -
    have "(16::nat) dvd 128" by simp
    then show ?thesis using dn by (rule dvd_trans)
  qed
  have nt: "v07_NUM_THREADS_PER_BLOCK div 32 = 8"
    by (simp add: v07_NUM_THREADS_PER_BLOCK_def tile_defs)
  have "?I ?s"
  proof (rule run_grid_invariant [where I = ?I])
    show "?I (initial_state C)" by (simp add: initial_state_def)
  next
    fix yb xb w and s :: gpu_state
    assume yb: "yb < ?gy" and xb: "xb < ?gx" and w: "w < v07_NUM_THREADS_PER_BLOCK div 32"
      and s: "?I s"
    have w8: "w < 8" using w unfolding nt .
    have "Suc yb \<le> ?gy" using yb by simp
    then have "Suc yb * 128 \<le> ?gy * 128" by (rule mult_le_mono1)
    then have a: "(yb + 1) * 128 \<le> m" unfolding gy by simp
    have "Suc xb \<le> ?gx" using xb by simp
    then have "Suc xb * 128 \<le> ?gx * 128" by (rule mult_le_mono1)
    then have b: "(xb + 1) * 128 \<le> n" unfolding gx by simp
    show "?I (gemm_v07_vectorized il m n k alpha A lda B ldb beta ldc yb xb w s)"
      by (rule v07_body_in_bounds [OF n16 w8 a b s])
  qed
  then have i: "?I ?s" .
  then have "\<not> misaligned ?s" by simp
  then have "launch_gemm_kernel_v07_vectorized il m n k alpha A lda B ldb beta C ldc = Inr ?s"
    unfolding launch_gemm_kernel_v07_vectorized_def kernel_status_def using g(1) by simp
  then show ?thesis using i by blast
qed

lemma v07_body_keeps:
  assumes n16: "16 dvd n"
  shows "misaligned (gemm_v07_vectorized il m n k alpha A lda B ldb beta ldc yb xb w s) = misaligned s
       \<and> C_writes s \<subseteq> C_writes (gemm_v07_vectorized il m n k alpha A lda B ldb beta ldc yb xb w s)
       \<and> C_reads s \<subseteq> C_reads (gemm_v07_vectorized il m n k alpha A lda B ldb beta ldc yb xb w s)"
proof -
  let ?I = "\<lambda>s'. misaligned s' = misaligned s \<and> C_writes s \<subseteq> C_writes s' \<and> C_reads s \<subseteq> C_reads s'"
  note a = v07_store_fragment_aligned [OF n16 v07_C_idx_dvd(1) v07_C_idx_dvd(2)]
  show ?thesis
    unfolding gemm_v07_vectorized_def v07_write_results_def
  proof (rule fold_invariant [where I = ?I])
    show "?I s" by simp
  next
    fix ty and s' :: gpu_state assume "?I s'"
    then show "?I (fold (\<lambda>tx. v07_store_fragment alpha beta n (v07_C_row_idx yb w ty)
                 (v07_C_col_idx xb w tx) (v07_accumulate il m n k A lda B ldb yb xb w ty tx))
               [0..<NUM_WMMA_TILES_X] s')"
    proof (rule fold_invariant [where I = ?I, rotated])
      fix tx and s' :: gpu_state assume "?I s'"
      then show "?I (v07_store_fragment alpha beta n (v07_C_row_idx yb w ty) (v07_C_col_idx xb w tx)
                (v07_accumulate il m n k A lda B ldb yb xb w ty tx) s')"
        unfolding a by blast
    qed
  qed
qed

lemma v07_body_touches:
  assumes n16: "16 dvd n" and idx: "ty < 4" "tx < 2" "i < 16" "j < 16"
  shows "(v07_C_row_idx yb w ty + i, v07_C_col_idx xb w tx + j,
            (v07_C_row_idx yb w ty + i) * n + (v07_C_col_idx xb w tx + j))
          \<in> C_writes (gemm_v07_vectorized il m n k alpha A lda B ldb beta ldc yb xb w s)
            \<inter> C_reads (gemm_v07_vectorized il m n k alpha A lda B ldb beta ldc yb xb w s)"
proof -
  let ?x = "(v07_C_row_idx yb w ty + i, v07_C_col_idx xb w tx + j,
            (v07_C_row_idx yb w ty + i) * n + (v07_C_col_idx xb w tx + j))"
  let ?Q = "\<lambda>s. ?x \<in> C_writes s \<inter> C_reads s"
  note a = v07_store_fragment_aligned [OF n16 v07_C_idx_dvd(1) v07_C_idx_dvd(2)]
  have keep: "?Q (v07_store_fragment alpha beta n (v07_C_row_idx yb w ty') (v07_C_col_idx xb w tx') f s)"
    if "?Q s" for ty' tx' f and s :: gpu_state
    using that unfolding a by blast
  have hit: "?Q (v07_store_fragment alpha beta n (v07_C_row_idx yb w ty) (v07_C_col_idx xb w tx) f s)"
    for f and s :: gpu_state
    unfolding a using idx(3) idx(4) by blast
  show ?thesis
    unfolding gemm_v07_vectorized_def v07_write_results_def
  proof (rule fold_reaches [where i = ty and Q = ?Q])
    show "ty \<in> set [0..<NUM_WMMA_TILES_Y]" using idx(1) by (simp add: tile_defs)
  next
    fix s :: gpu_state
    show "?Q (fold (\<lambda>tx. v07_store_fragment alpha beta n (v07_C_row_idx yb w ty)
                 (v07_C_col_idx xb w tx) (v07_accumulate il m n k A lda B ldb yb xb w ty tx))
               [0..<NUM_WMMA_TILES_X] s)"
    proof (rule fold_reaches [where i = tx and Q = ?Q])
      show "tx \<in> set [0..<NUM_WMMA_TILES_X]" using idx(2) by (simp add: tile_defs)
    next
      fix s :: gpu_state
      show "?Q (v07_store_fragment alpha beta n (v07_C_row_idx yb w ty) (v07_C_col_idx xb w tx)
                (v07_accumulate il m n k A lda B ldb yb xb w ty tx) s)" by (rule hit)
    next
      fix j' and s :: gpu_state assume "?Q s"
      then show "?Q (v07_store_fragment alpha beta n (v07_C_row_idx yb w ty) (v07_C_col_idx xb w j')
                (v07_accumulate il m n k A lda B ldb yb xb w ty j') s)" by (rule keep)
    qed
  next
    fix j' and s :: gpu_state assume q: "?Q s"
    show "?Q (fold (\<lambda>tx. v07_store_fragment alpha beta n (v07_C_row_idx yb w j')
                 (v07_C_col_idx xb w tx) (v07_accumulate il m n k A lda B ldb yb xb w j' tx))
               [0..<NUM_WMMA_TILES_X] s)"
    proof (rule fold_invariant [where I = ?Q])
      show "?Q s" by (rule q)
    next
      fix tx' and s :: gpu_state assume "?Q s"
      then show "?Q (v07_store_fragment alpha beta n (v07_C_row_idx yb w j') (v07_C_col_idx xb w tx')
                (v07_accumulate il m n k A lda B ldb yb xb w j' tx') s)" by (rule keep)
    qed
  qed
qed

lemma v07_launch_touches:
  assumes n16: "16 dvd n"
    and ok: "launch_configuration_ok (grid_dim_x n) (grid_dim_y m)"
    and blk: "yb < grid_dim_y m" "xb < grid_dim_x n" "w < v07_NUM_THREADS_PER_BLOCK div 32"
    and idx: "ty < 4" "tx < 2" "i < 16" "j < 16"
  shows "\<exists>s. launch_gemm_kernel_v07_vectorized il m n k alpha A lda B ldb beta C ldc = Inr s
           \<and> (v07_C_row_idx yb w ty + i, v07_C_col_idx xb w tx + j,
                (v07_C_row_idx yb w ty + i) * n + (v07_C_col_idx xb w tx + j))
              \<in> C_writes s \<inter> C_reads s"
proof -
  let ?body = "gemm_v07_vectorized il m n k alpha A lda B ldb beta ldc"
  let ?s = "run_grid (grid_dim_x n) (grid_dim_y m) (v07_NUM_THREADS_PER_BLOCK div 32) ?body
              (initial_state C)"
  let ?x = "(v07_C_row_idx yb w ty + i, v07_C_col_idx xb w tx + j,
            (v07_C_row_idx yb w ty + i) * n + (v07_C_col_idx xb w tx + j))"
  have "\<not> misaligned ?s"
  proof (rule run_grid_invariant [where I = "\<lambda>s. \<not> misaligned s"])
    show "\<not> misaligned (initial_state C)" by (simp add: initial_state_def)
  next
    fix yb xb w and s :: gpu_state assume "\<not> misaligned s"
    then show "\<not> misaligned (?body yb xb w s)" using v07_body_keeps [OF n16] by simp
  qed
  then have l: "launch_gemm_kernel_v07_vectorized il m n k alpha A lda B ldb beta C ldc = Inr ?s"
    unfolding launch_gemm_kernel_v07_vectorized_def kernel_status_def using ok by simp
  have "?x \<in> C_writes ?s \<inter> C_reads ?s"
  proof (rule run_grid_reaches [OF blk, where Q = "\<lambda>s. ?x \<in> C_writes s \<inter> C_reads s"])
    fix s show "?x \<in> C_writes (?body yb xb w s) \<inter> C_reads (?body yb xb w s)"
      by (rule v07_body_touches [OF n16 idx])
  next
    fix yb xb w and s :: gpu_state assume "?x \<in> C_writes s \<inter> C_reads s"
    then show "?x \<in> C_writes (?body yb xb w s) \<inter> C_reads (?body yb xb w s)"
      using v07_body_keeps [OF n16, of il m k alpha A lda B ldb beta ldc yb xb w s] by blast
  qed
  then show ?thesis using l by blast
qed





section \<open>The claims\<close>

lemma launch_grid_dim_ceil:
  assumes "m \<le> 2 ^ 32 - 128" and "n \<le> 2 ^ 32 - 128"
  shows "grid_dim_x n = ceil_div n BLOCK_TILE_SIZE_X \<and> grid_dim_y m = ceil_div m BLOCK_TILE_SIZE_Y"
  using grid_dim_x_ceil [OF assms(2)] grid_dim_y_ceil [OF assms(1)] by (rule conjI)

text \<open>
  Claim C9: for every \<open>m\<close> and \<open>n\<close> the launch functions use a grid of exactly
  \<open>ceil(n / 128)\<close> by \<open>ceil(m / 128)\<close> groups. The code casts \<open>n\<close> to \<open>unsigned int\<close> and
  rounds up in 32-bit arithmetic, and misses that count: \<open>n = 2^32 - 1\<close> fits an
  \<open>unsigned int\<close>, yet adding 127 wraps and the launch asks for 0 groups in x where
  \<open>ceil(n / 128)\<close> is \<open>2^25\<close>; \<open>n = 2^32 + 1\<close> is cast to 1 and gives a launch configuration,
  accepted by the runtime, of a single group in x where \<open>2^25 + 1\<close> are needed.
\<close>

theorem launch_grid_dim_wraps:
  "grid_dim_x 4294967295 = 0 \<and> ceil_div 4294967295 BLOCK_TILE_SIZE_X = 33554432
   \<and> grid_dim_x 4294967297 = 1 \<and> ceil_div 4294967297 BLOCK_TILE_SIZE_X = 33554433
   \<and> launch_configuration_ok (grid_dim_x 4294967297) (grid_dim_y 1)"
  by (simp add: grid_dim_x_def grid_dim_y_def ceil_div_eq BLOCK_TILE_SIZE_X_def
      BLOCK_TILE_SIZE_Y_def launch_configuration_ok_def)

text \<open>
  Claim C1, as amended. Kernel v06 is launched for a matrix of 1 to 8388480 rows and 1 to
  \<open>2^32 - 128\<close> columns, with a leading dimension \<open>ldc\<close> of at least \<open>n\<close> that is a multiple of
  the vector width \<open>16 / sizeof(T)\<close>, and with a single reduction tile (\<open>k\<close> of at most 16)
  or warps that do not overtake each other. Then the launch succeeds and leaves in every
  element \<open>C[i][j]\<close>, at offset \<open>i * ldc + j\<close>, the value
  \<open>alpha * (sum over p < k of A[i][p] * B[p][j]) + beta * C_original[i][j]\<close>.
  Arithmetic is exact here, so no tolerance is needed.
\<close>

theorem v06_gemm_correct:
  assumes "NUM_VECTOR_UNITS T dvd ldc" and "n \<le> ldc" and "race_free il k"
    and "1 \<le> m" and "m \<le> 8388480" and "1 \<le> n" and "n \<le> 2 ^ 32 - 128"
  shows "\<exists>s. launch_gemm_kernel_v06_vectorized il T m n k alpha A lda B ldb beta C ldc = Inr s
           \<and> (\<forall>i<m. \<forall>j<n. C_mem s (i * ldc + j)
                               = alpha * dot A lda B ldb k i j + beta * C (i * ldc + j))"
proof -
  from v06_elements [OF assms]
  obtain s where "launch_gemm_kernel_v06_vectorized il T m n k alpha A lda B ldb beta C ldc = Inr s"
    and "\<forall>i<m. \<forall>j<n. C_mem s (i * ldc + j)
                                = gemm_ref alpha A lda B ldb beta k i j (C (i * ldc + j))
                            \<and> (i, j, i * ldc + j) \<in> C_reads s" by blast
  then show ?thesis unfolding gemm_ref_def by blast
qed

theorem v06_gemm_correct_witness:
  "case launch_gemm_kernel_v06_vectorized in_order Float 17 17 2 (Finite 2) (\<lambda>a. Finite 3) 17
          (\<lambda>a. Finite 5) 17 (Finite 7) (\<lambda>a. Finite 1) 20 of
     Inl e \<Rightarrow> False
   | Inr s \<Rightarrow> C_mem s (16 * 20 + 16) = Finite 67"
proof -
  have "\<exists>s. launch_gemm_kernel_v06_vectorized in_order Float 17 17 2 (Finite 2) (\<lambda>a. Finite 3) 17
          (\<lambda>a. Finite 5) 17 (Finite 7) (\<lambda>a. Finite 1) 20 = Inr s
           \<and> (\<forall>i<17. \<forall>j<17. C_mem s (i * 20 + j)
                 = Finite 2 * dot (\<lambda>a. Finite 3) 17 (\<lambda>a. Finite 5) 17 2 i j + Finite 7 * Finite 1)"
    by (rule v06_gemm_correct) (simp_all add: NUM_VECTOR_UNITS_def race_free_one_tile)
  then obtain s where l: "launch_gemm_kernel_v06_vectorized in_order Float 17 17 2 (Finite 2)
          (\<lambda>a. Finite 3) 17 (\<lambda>a. Finite 5) 17 (Finite 7) (\<lambda>a. Finite 1) 20 = Inr s"
    and v: "\<forall>i<17. \<forall>j<17. C_mem s (i * 20 + j)
                 = Finite 2 * dot (\<lambda>a. Finite 3) 17 (\<lambda>a. Finite 5) 17 2 i j + Finite 7 * Finite 1"
    by blast
  have "C_mem s (16 * 20 + 16)
      = Finite 2 * dot (\<lambda>a. Finite 3) 17 (\<lambda>a. Finite 5) 17 2 16 16 + Finite 7 * Finite 1"
    using v [rule_format, of 16 16] by simp
  also have "\<dots> = Finite 67"
    by (simp add: dot_def A_elem_def B_elem_def zero_elem_def numeral_2_eq_2)
  finally show ?thesis unfolding l by simp
qed

text \<open>
  Claim C1 as stated ("for every valid m, n, k, leading dimensions") fails for a leading
  dimension that is not a multiple of the vector width: with \<open>float\<close> elements, \<open>m = 2\<close>,
  \<open>n = 1\<close> and \<open>ldc = 1\<close>, the thread that owns row 1 loads an \<open>int4\<close> at offset 1 of \<open>C\<close>,
  which is not 16-byte aligned, and the kernel faults instead of updating \<open>C\<close>.
\<close>

theorem v06_faults_on_unaligned_ldc:
  "launch_gemm_kernel_v06_vectorized in_order Float 2 1 1 (Finite 1) (\<lambda>a. Finite 1) 1
     (\<lambda>a. Finite 1) 1 (Finite 2) (\<lambda>a. Finite 1) 1 = Inl MisalignedAddress"
  by (rule v06_launch_faults [where yb = 0 and xb = 0 and tid = 0 and rr = 0 and rc = 0
        and y = 1 and xv = 0])
     (simp_all add: grid_dim_x_def grid_dim_y_def launch_configuration_ok_def tile_defs
        v06_C_row_idx_def v06_C_col_idx_def NUM_VECTOR_UNITS_def VECTORIZED_THREAD_TILE_SIZE_X_def)

text \<open>
  Claim C2: kernel v06 never stores to an element of \<open>C\<close> outside \<open>[0,m) \<times> [0,n)\<close>, also
  when a vector store straddles the edge of the matrix. The guard of the write-back,
  \<open>C_row_idx < m && C_col_idx < n\<close>, tests the first column of the vector only. With
  \<open>float\<close> elements (vectors of 4), \<open>m = n = 1\<close>, \<open>k = 0\<close>, \<open>ldc = 4\<close>, \<open>beta = 2\<close> and
  \<open>C\<close> filled with 1, the thread that owns element \<open>(0, 0)\<close> passes the guard and stores
  the whole vector: column 1 of row 0 (offset 1), which is outside the matrix, is
  overwritten with \<open>beta * 1 = 2\<close>.
\<close>

theorem v06_store_straddles_edge:
  "case launch_gemm_kernel_v06_vectorized in_order Float 1 1 0 (Finite 1) (\<lambda>a. Finite 1) 1
          (\<lambda>a. Finite 1) 1 (Finite 2) (\<lambda>a. Finite 1) 4 of
     Inl e \<Rightarrow> False
   | Inr s \<Rightarrow> (0, 1, 1) \<in> C_writes s \<and> C_mem s 1 = Finite 2"
proof -
  have "\<exists>s. launch_gemm_kernel_v06_vectorized in_order Float 1 1 0 (Finite 1) (\<lambda>a. Finite 1) 1
          (\<lambda>a. Finite 1) 1 (Finite 2) (\<lambda>a. Finite 1) 4 = Inr s
           \<and> effect (v06_written Float 1 1 4)
                (v06_blend 1 1 0 (Finite 1) (\<lambda>a. Finite 1) 1 (\<lambda>a. Finite 1) 1 (Finite 2) 4) 4
                (initial_state (\<lambda>a. Finite 1)) s"
    by (rule v06_launch_effect) (simp_all add: NUM_VECTOR_UNITS_def race_free_one_tile)
  then obtain s where l: "launch_gemm_kernel_v06_vectorized in_order Float 1 1 0 (Finite 1)
          (\<lambda>a. Finite 1) 1 (\<lambda>a. Finite 1) 1 (Finite 2) (\<lambda>a. Finite 1) 4 = Inr s"
    and e: "effect (v06_written Float 1 1 4)
                (v06_blend 1 1 0 (Finite 1) (\<lambda>a. Finite 1) 1 (\<lambda>a. Finite 1) 1 (Finite 2) 4) 4
                (initial_state (\<lambda>a. Finite 1)) s" by blast
  have w: "v06_written Float 1 1 4 1" by (simp add: v06_written_def NUM_VECTOR_UNITS_def)
  have "(1 div 4, 1 mod 4, 1) \<in> region (v06_written Float 1 1 4) 4"
    unfolding region_def using w by blast
  then have a: "(0, 1, 1) \<in> C_writes s" unfolding effectD(2) [OF e] by simp
  have "C_mem s 1 = v06_blend 1 1 0 (Finite 1) (\<lambda>a. Finite 1) 1 (\<lambda>a. Finite 1) 1 (Finite 2) 4 1
                      (C_mem (initial_state (\<lambda>a. Finite 1)) 1)"
    using effectD(1) [OF e, of 1] w by simp
  also have "\<dots> = Finite 2"
    by (simp add: v06_blend_def padded_dot_k0 initial_state_def zero_elem_def)
  finally show ?thesis unfolding l using a by simp
qed

text \<open>
  Claim C3: on every input on which both kernels are defined, kernel v07 leaves the same
  values in \<open>C\<close> as kernel v06. Kernel v07 receives \<open>ldc\<close> and strides \<open>C\<close> by \<open>n\<close>
  instead. With \<open>m = n = 128\<close>, \<open>k = 0\<close>, \<open>ldc = 256\<close>, \<open>alpha = 1\<close>, \<open>beta = 2\<close> and \<open>C\<close>
  filled with 1, kernel v06 (on \<open>__half\<close>) scales element \<open>(64, 0)\<close> at offset
  \<open>64 * 256\<close> to 2 and leaves the padding at offset 128 alone; kernel v07 leaves offset
  \<open>64 * 256\<close> at 1 and scales offset 128, which it takes for element \<open>(1, 0)\<close>.
\<close>

theorem v07_differs_from_v06:
  "case (launch_gemm_kernel_v06_vectorized in_order Half 128 128 0 (Finite 1) (\<lambda>a. Finite 1) 128
           (\<lambda>a. Finite 1) 128 (Finite 2) (\<lambda>a. Finite 1) 256,
         launch_gemm_kernel_v07_vectorized in_order 128 128 0 (Finite 1) (\<lambda>a. Finite 1) 128
           (\<lambda>a. Finite 1) 128 (Finite 2) (\<lambda>a. Finite 1) 256) of
     (Inr s6, Inr s7) \<Rightarrow> C_mem s6 (64 * 256 + 0) = Finite 2 \<and> C_mem s7 (64 * 256 + 0) = Finite 1
                        \<and> C_mem s6 128 = Finite 1 \<and> C_mem s7 128 = Finite 2
   | _ \<Rightarrow> False"
proof -
  let ?A = "\<lambda>a :: nat. Finite 1"
  have "\<exists>s. launch_gemm_kernel_v06_vectorized in_order Half 128 128 0 (Finite 1) ?A 128
          ?A 128 (Finite 2) ?A 256 = Inr s
           \<and> effect (v06_written Half 128 128 256)
                (v06_blend 128 128 0 (Finite 1) ?A 128 ?A 128 (Finite 2) 256) 256
                (initial_state ?A) s"
    by (rule v06_launch_effect) (simp_all add: NUM_VECTOR_UNITS_def race_free_one_tile)
  then obtain s6 where l6: "launch_gemm_kernel_v06_vectorized in_order Half 128 128 0 (Finite 1) ?A 128
          ?A 128 (Finite 2) ?A 256 = Inr s6"
    and e6: "effect (v06_written Half 128 128 256)
                (v06_blend 128 128 0 (Finite 1) ?A 128 ?A 128 (Finite 2) 256) 256
                (initial_state ?A) s6" by blast
  have "\<exists>s. launch_gemm_kernel_v07_vectorized in_order 128 128 0 (Finite 1) ?A 128
          ?A 128 (Finite 2) ?A 256 = Inr s
           \<and> effect (\<lambda>off. off < 128 * 128)
                (v07_blend 128 128 0 (Finite 1) ?A 128 ?A 128 (Finite 2)) 128
                (initial_state ?A) s"
    by (rule v07_launch_effect) (simp_all add: race_free_one_tile)
  then obtain s7 where l7: "launch_gemm_kernel_v07_vectorized in_order 128 128 0 (Finite 1) ?A 128
          ?A 128 (Finite 2) ?A 256 = Inr s7"
    and e7: "effect (\<lambda>off. off < 128 * 128)
                (v07_blend 128 128 0 (Finite 1) ?A 128 ?A 128 (Finite 2)) 128
                (initial_state ?A) s7" by blast
  have w1: "v06_written Half 128 128 256 (64 * 256 + 0)"
    and w2: "\<not> v06_written Half 128 128 256 128"
    by (simp_all add: v06_written_def NUM_VECTOR_UNITS_def)
  have a: "C_mem s6 (64 * 256 + 0) = Finite 2"
    using effectD(1) [OF e6, of "64 * 256 + 0"] w1
    by (simp add: v06_blend_def padded_dot_k0 initial_state_def zero_elem_def)
  have b: "C_mem s6 128 = Finite 1"
    using effectD(1) [OF e6, of 128] w2 by (simp add: initial_state_def)
  have c: "C_mem s7 (64 * 256 + 0) = Finite 1"
    using effectD(1) [OF e7, of "64 * 256 + 0"] by (simp add: initial_state_def)
  have d: "C_mem s7 128 = Finite 2"
    using effectD(1) [OF e7, of 128]
    by (simp add: v07_blend_def padded_dot_k0 initial_state_def zero_elem_def)
  show ?thesis unfolding l6 l7 using a b c d by simp
qed

text \<open>
  Claim C4, as amended. When \<open>m\<close> and \<open>n\<close> are multiples of the block tile size 128 (with
  \<open>m\<close> at most 8388480 and \<open>n\<close> at most \<open>2^32 - 128\<close>), the launch of kernel v07 succeeds,
  and every load and store of \<open>C\<close> it performs is for a row \<open>r < m\<close> and a column \<open>c < n\<close>,
  at offset \<open>r * n + c\<close>, which is below \<open>m * n\<close>; with \<open>ldc = n\<close> this is element \<open>(r, c)\<close>
  of \<open>C\<close>. This holds for every \<open>k\<close> and every interleaving of the warps.
\<close>

theorem v07_accesses_in_bounds:
  assumes "128 dvd m" and "128 dvd n"
    and "1 \<le> m" and "m \<le> 8388480" and "1 \<le> n" and "n \<le> 2 ^ 32 - 128"
  shows "\<exists>s. launch_gemm_kernel_v07_vectorized il m n k alpha A lda B ldb beta C n = Inr s
           \<and> (\<forall>(r, c, off) \<in> C_reads s \<union> C_writes s. r < m \<and> c < n \<and> off = r * n + c \<and> off < m * n)"
proof -
  from v07_launch_in_bounds [OF assms, where ldc = n]
  obtain s where l: "launch_gemm_kernel_v07_vectorized il m n k alpha A lda B ldb beta C n = Inr s"
    and b: "\<forall>x \<in> C_reads s \<union> C_writes s.
                 fst x < m \<and> fst (snd x) < n \<and> snd (snd x) = fst x * n + fst (snd x)" by blast
  have "r < m \<and> c < n \<and> off = r * n + c \<and> off < m * n"
    if "(r, c, off) \<in> C_reads s \<union> C_writes s" for r c off
  proof -
    from b [rule_format, OF that] have r: "r < m" and c: "c < n" and o: "off = r * n + c"
      by simp_all
    have "r * n + c < r * n + n" using c by simp
    also have "\<dots> = Suc r * n" by simp
    also have "\<dots> \<le> m * n" using r by (intro mult_le_mono1) simp
    finally show ?thesis using r c o by simp
  qed
  then show ?thesis using l by blast
qed

theorem v07_accesses_in_bounds_witness:
  "case launch_gemm_kernel_v07_vectorized in_order 128 128 0 (Finite 1) (\<lambda>a. Finite 1) 128
          (\<lambda>a. Finite 1) 128 (Finite 2) (\<lambda>a. Finite 1) 128 of
     Inl e \<Rightarrow> False
   | Inr s \<Rightarrow> (127, 127, 16383) \<in> C_writes s \<and> (128, 0, 16384) \<notin> C_writes s
              \<and> (128, 0, 16384) \<notin> C_reads s"
proof -
  have sz: "(128::nat) dvd 128" "(1::nat) \<le> 128" "(128::nat) \<le> 8388480"
    "(128::nat) \<le> 2 ^ 32 - 128" by simp_all
  from v07_accesses_in_bounds [OF sz(1) sz(1) sz(2) sz(3) sz(2) sz(4), of in_order 0 "Finite 1"
      "\<lambda>a. Finite 1" 128 "\<lambda>a. Finite 1" 128 "Finite 2" "\<lambda>a. Finite 1"]
  obtain s where l: "launch_gemm_kernel_v07_vectorized in_order 128 128 0 (Finite 1)
          (\<lambda>a. Finite 1) 128 (\<lambda>a. Finite 1) 128 (Finite 2) (\<lambda>a. Finite 1) 128 = Inr s"
    and b: "\<forall>(r, c, off) \<in> C_reads s \<union> C_writes s.
               r < 128 \<and> c < 128 \<and> off = r * 128 + c \<and> off < 128 * 128" by blast
  have out: "(128, 0, 16384) \<notin> C_reads s \<union> C_writes s"
    using b [rule_format, of "(128, 0, 16384)"] by auto
  have "\<exists>s. launch_gemm_kernel_v07_vectorized in_order 128 128 0 (Finite 1) (\<lambda>a. Finite 1) 128
          (\<lambda>a. Finite 1) 128 (Finite 2) (\<lambda>a. Finite 1) 128 = Inr s
           \<and> (v07_C_row_idx 0 7 3 + 15, v07_C_col_idx 0 7 1 + 15,
                (v07_C_row_idx 0 7 3 + 15) * 128 + (v07_C_col_idx 0 7 1 + 15))
              \<in> C_writes s \<inter> C_reads s"
    by (rule v07_launch_touches)
       (simp_all add: launch_configuration_ok_def grid_dim_x_def grid_dim_y_def
          v07_NUM_THREADS_PER_BLOCK_def tile_defs)
  then have x: "(v07_C_row_idx 0 7 3 + 15, v07_C_col_idx 0 7 1 + 15,
                (v07_C_row_idx 0 7 3 + 15) * 128 + (v07_C_col_idx 0 7 1 + 15))
              \<in> C_writes s \<inter> C_reads s" unfolding l by simp
  have "v07_C_row_idx 0 7 3 = 112" "v07_C_col_idx 0 7 1 = 112"
    by (simp_all add: v07_C_row_idx_def v07_C_col_idx_def tile_defs)
  then have "(127, 127, 16383) \<in> C_writes s" using x by simp
  then show ?thesis unfolding l using out by simp
qed

text \<open>
  Claim C4 as stated asks for multiples of the output fragment size, 16, only. The grid
  has \<open>ceil(n / 128)\<close> by \<open>ceil(m / 128)\<close> blocks and every block writes back its whole
  tile of 128 by 128 with no guard: for \<open>m = n = 16\<close> the one block of the grid loads and
  stores row 16, at offset \<open>256 = m * n\<close>, past the end of the matrix.
\<close>

theorem v07_writes_past_small_matrix:
  "case launch_gemm_kernel_v07_vectorized in_order 16 16 0 (Finite 1) (\<lambda>a. Finite 1) 16
          (\<lambda>a. Finite 1) 16 (Finite 2) (\<lambda>a. Finite 1) 16 of
     Inl e \<Rightarrow> False
   | Inr s \<Rightarrow> (16, 0, 256) \<in> C_writes s \<and> (16, 0, 256) \<in> C_reads s"
proof -
  have "\<exists>s. launch_gemm_kernel_v07_vectorized in_order 16 16 0 (Finite 1) (\<lambda>a. Finite 1) 16
          (\<lambda>a. Finite 1) 16 (Finite 2) (\<lambda>a. Finite 1) 16 = Inr s
           \<and> (v07_C_row_idx 0 0 1 + 0, v07_C_col_idx 0 0 0 + 0,
                (v07_C_row_idx 0 0 1 + 0) * 16 + (v07_C_col_idx 0 0 0 + 0))
              \<in> C_writes s \<inter> C_reads s"
    by (rule v07_launch_touches)
       (simp_all add: launch_configuration_ok_def grid_dim_x_def grid_dim_y_def
          v07_NUM_THREADS_PER_BLOCK_def tile_defs)
  then obtain s where l: "launch_gemm_kernel_v07_vectorized in_order 16 16 0 (Finite 1)
          (\<lambda>a. Finite 1) 16 (\<lambda>a. Finite 1) 16 (Finite 2) (\<lambda>a. Finite 1) 16 = Inr s"
    and x: "(v07_C_row_idx 0 0 1 + 0, v07_C_col_idx 0 0 0 + 0,
                (v07_C_row_idx 0 0 1 + 0) * 16 + (v07_C_col_idx 0 0 0 + 0))
              \<in> C_writes s \<inter> C_reads s" by blast
  have "v07_C_row_idx 0 0 1 = 16" "v07_C_col_idx 0 0 0 = 0"
    by (simp_all add: v07_C_row_idx_def v07_C_col_idx_def tile_defs)
  then have "(16, 0, 256) \<in> C_writes s \<inter> C_reads s" using x by simp
  then show ?thesis unfolding l by simp
qed

text \<open>
  Claim C5: both kernels access element \<open>(i, j)\<close> of \<open>C\<close> at offset \<open>i * ldc + j\<close>, also
  when \<open>ldc\<close> differs from \<open>n\<close>. The write-back of kernel v07 computes
  \<open>&C[row * n + col]\<close> and passes \<open>n\<close> as the stride of the fragment load and store; its
  parameter \<open>ldc\<close> is never used. With \<open>m = n = 128\<close> and \<open>ldc = 256\<close> it loads and stores
  element \<open>(1, 0)\<close> at offset 128, where the claim says \<open>1 * 256 + 0\<close>.
\<close>

theorem v07_strides_by_n:
  "case launch_gemm_kernel_v07_vectorized in_order 128 128 0 (Finite 1) (\<lambda>a. Finite 1) 128
          (\<lambda>a. Finite 1) 128 (Finite 2) (\<lambda>a. Finite 1) 256 of
     Inl e \<Rightarrow> False
   | Inr s \<Rightarrow> (1, 0, 128) \<in> C_reads s \<and> (1, 0, 128) \<in> C_writes s \<and> (128 :: nat) \<noteq> 1 * 256 + 0"
proof -
  have "\<exists>s. launch_gemm_kernel_v07_vectorized in_order 128 128 0 (Finite 1) (\<lambda>a. Finite 1) 128
          (\<lambda>a. Finite 1) 128 (Finite 2) (\<lambda>a. Finite 1) 256 = Inr s
           \<and> effect (\<lambda>off. off < 128 * 128)
                (v07_blend 128 128 0 (Finite 1) (\<lambda>a. Finite 1) 128 (\<lambda>a. Finite 1) 128 (Finite 2)) 128
                (initial_state (\<lambda>a. Finite 1)) s"
    by (rule v07_launch_effect) (simp_all add: race_free_one_tile)
  then obtain s where l: "launch_gemm_kernel_v07_vectorized in_order 128 128 0 (Finite 1)
          (\<lambda>a. Finite 1) 128 (\<lambda>a. Finite 1) 128 (Finite 2) (\<lambda>a. Finite 1) 256 = Inr s"
    and e: "effect (\<lambda>off. off < 128 * 128)
                (v07_blend 128 128 0 (Finite 1) (\<lambda>a. Finite 1) 128 (\<lambda>a. Finite 1) 128 (Finite 2)) 128
                (initial_state (\<lambda>a. Finite 1)) s" by blast
  have "(128::nat) < 128 * 128" by simp
  then have "(128 div 128, 128 mod 128, 128) \<in> region (\<lambda>off. off < 128 * 128) 128"
    unfolding region_def by (intro CollectI exI [of _ 128] conjI refl)
  then have "(1, 0, 128) \<in> region (\<lambda>off. off < 128 * 128) 128" by simp
  then have "(1, 0, 128) \<in> C_reads s" "(1, 0, 128) \<in> C_writes s"
    unfolding effectD(2) [OF e] effectD(3) [OF e] by simp_all
  then show ?thesis unfolding l by simp
qed

text \<open>
  Claim C6, as amended. A call with \<open>k = 0\<close> and at least one row and one column is a legal
  degenerate input: the reduction loop runs over \<open>(0 + 16 - 1) / 16 = 0\<close> tiles, the launch
  succeeds and, for a finite \<open>alpha\<close>, every element of \<open>C\<close> becomes \<open>beta\<close> times its
  previous value. This is stated for kernel v06 with \<open>ldc\<close> a multiple of the vector width
  and at least \<open>n\<close>, and for kernel v07 with \<open>m\<close> and \<open>n\<close> multiples of 128 and \<open>ldc = n\<close>,
  for \<open>m\<close> up to 8388480 and \<open>n\<close> up to \<open>2^32 - 128\<close>. A call with \<open>m = 0\<close> or \<open>n = 0\<close> asks for
  a grid with an empty dimension: the launch is refused with an invalid-configuration
  error and no block runs.
\<close>

theorem degenerate_k0:
  assumes "1 \<le> m" and "m \<le> 8388480" and "1 \<le> n" and "n \<le> 2 ^ 32 - 128"
  shows "num_thread_block_tiles 0 = 0
       \<and> (NUM_VECTOR_UNITS T dvd ldc \<and> n \<le> ldc \<longrightarrow>
            (\<exists>s. launch_gemm_kernel_v06_vectorized il T m n 0 (Finite a) A lda B ldb beta C ldc = Inr s
                 \<and> (\<forall>i<m. \<forall>j<n. C_mem s (i * ldc + j) = beta * C (i * ldc + j))))
       \<and> (128 dvd m \<and> 128 dvd n \<longrightarrow>
            (\<exists>s. launch_gemm_kernel_v07_vectorized il m n 0 (Finite a) A lda B ldb beta C n = Inr s
                 \<and> (\<forall>i<m. \<forall>j<n. C_mem s (i * n + j) = beta * C (i * n + j))))
       \<and> launch_gemm_kernel_v06_vectorized il T 0 n 0 (Finite a) A lda B ldb beta C ldc
            = Inl InvalidConfiguration
       \<and> launch_gemm_kernel_v06_vectorized il T m 0 0 (Finite a) A lda B ldb beta C ldc
            = Inl InvalidConfiguration
       \<and> launch_gemm_kernel_v07_vectorized il 0 n 0 (Finite a) A lda B ldb beta C n
            = Inl InvalidConfiguration
       \<and> launch_gemm_kernel_v07_vectorized il m 0 0 (Finite a) A lda B ldb beta C n
            = Inl InvalidConfiguration"
proof -
  have rf: "race_free il 0" by (rule race_free_one_tile) simp
  have ref: "gemm_ref (Finite a) A lda B ldb beta 0 i j c = beta * c" for i j c
    unfolding gemm_ref_def dot_k0 elem_finite_times_zero by simp
  have t: "num_thread_block_tiles 0 = 0"
    by (simp add: num_thread_block_tiles_def BLOCK_TILE_SIZE_K_def)
  have v06: "\<exists>s. launch_gemm_kernel_v06_vectorized il T m n 0 (Finite a) A lda B ldb beta C ldc = Inr s
                 \<and> (\<forall>i<m. \<forall>j<n. C_mem s (i * ldc + j) = beta * C (i * ldc + j))"
    if "NUM_VECTOR_UNITS T dvd ldc \<and> n \<le> ldc"
  proof -
    from that have al: "NUM_VECTOR_UNITS T dvd ldc" and nl: "n \<le> ldc" by simp_all
    from v06_elements [OF al nl rf assms, of "Finite a" A lda B ldb beta C]
    show ?thesis unfolding ref by blast
  qed
  have v07: "\<exists>s. launch_gemm_kernel_v07_vectorized il m n 0 (Finite a) A lda B ldb beta C n = Inr s
                 \<and> (\<forall>i<m. \<forall>j<n. C_mem s (i * n + j) = beta * C (i * n + j))"
    if "128 dvd m \<and> 128 dvd n"
  proof -
    from that have dm: "128 dvd m" and dn: "128 dvd n" by simp_all
    from v07_elements [OF dm dn rf assms, of "Finite a" A lda B ldb beta C n]
    show ?thesis unfolding ref by blast
  qed
  show ?thesis using t v06 v07 by (simp only: launch_empty) blast
qed

theorem degenerate_k0_witness:
  "(case launch_gemm_kernel_v06_vectorized in_order Half 128 128 0 (Finite 3) (\<lambda>a. Finite 1) 128
          (\<lambda>a. Finite 1) 128 (Finite 2) (\<lambda>a. Finite 5) 128 of
     Inl e \<Rightarrow> False | Inr s \<Rightarrow> C_mem s (127 * 128 + 127) = Finite 10)
   \<and> (case launch_gemm_kernel_v07_vectorized in_order 128 128 0 (Finite 3) (\<lambda>a. Finite 1) 128
          (\<lambda>a. Finite 1) 128 (Finite 2) (\<lambda>a. Finite 5) 128 of
     Inl e \<Rightarrow> False | Inr s \<Rightarrow> C_mem s (127 * 128 + 127) = Finite 10)"
proof -
  have sz: "(1::nat) \<le> 128" "(128::nat) \<le> 8388480" "(128::nat) \<le> 2 ^ 32 - 128" by simp_all
  note d = degenerate_k0 [OF sz(1) sz(2) sz(1) sz(3), of Half 128 in_order 3 "\<lambda>a. Finite 1" 128
      "\<lambda>a. Finite 1" 128 "Finite 2" "\<lambda>a. Finite 5"]
  have h6: "NUM_VECTOR_UNITS Half dvd 128 \<and> (128::nat) \<le> 128" by (simp add: NUM_VECTOR_UNITS_def)
  have h7: "(128::nat) dvd 128 \<and> (128::nat) dvd 128" by simp
  from d h6 obtain s6 where l6: "launch_gemm_kernel_v06_vectorized in_order Half 128 128 0 (Finite 3)
          (\<lambda>a. Finite 1) 128 (\<lambda>a. Finite 1) 128 (Finite 2) (\<lambda>a. Finite 5) 128 = Inr s6"
    and v6: "\<forall>i<128. \<forall>j<128. C_mem s6 (i * 128 + j) = Finite 2 * Finite 5" by blast
  from d h7 obtain s7 where l7: "launch_gemm_kernel_v07_vectorized in_order 128 128 0 (Finite 3)
          (\<lambda>a. Finite 1) 128 (\<lambda>a. Finite 1) 128 (Finite 2) (\<lambda>a. Finite 5) 128 = Inr s7"
    and v7: "\<forall>i<128. \<forall>j<128. C_mem s7 (i * 128 + j) = Finite 2 * Finite 5" by blast
  have "C_mem s6 (127 * 128 + 127) = Finite 10" using v6 [rule_format, of 127 127] by simp
  moreover have "C_mem s7 (127 * 128 + 127) = Finite 10" using v7 [rule_format, of 127 127] by simp
  ultimately show ?thesis unfolding l6 l7 by simp
qed

text \<open>
  Claim C6 as stated has the launch succeed for \<open>m = 0\<close> or \<open>n = 0\<close> as well. With \<open>m = 0\<close>
  the launch functions compute \<open>grid_dim.y = (0 + 127) / 128 = 0\<close>, and a launch with an
  empty grid is an invalid configuration. The blend is \<open>alpha * 0 + beta * C\<close> also for
  \<open>k = 0\<close>, so that a non-finite \<open>alpha\<close> gives a non-finite result where \<open>beta * C\<close> is 2.
\<close>

theorem empty_matrix_launch_fails:
  "launch_gemm_kernel_v06_vectorized in_order Float 0 4 0 (Finite 1) (\<lambda>a. Finite 1) 1
      (\<lambda>a. Finite 1) 4 (Finite 2) (\<lambda>a. Finite 1) 4 = Inl InvalidConfiguration
   \<and> grid_dim_y 0 = 0
   \<and> (case launch_gemm_kernel_v06_vectorized in_order Float 1 1 0 NonFinite (\<lambda>a. Finite 1) 1
          (\<lambda>a. Finite 1) 1 (Finite 2) (\<lambda>a. Finite 1) 4 of
        Inl e \<Rightarrow> False | Inr s \<Rightarrow> C_mem s 0 = NonFinite \<and> Finite 2 * Finite 1 = Finite 2)"
proof -
  have "\<exists>s. launch_gemm_kernel_v06_vectorized in_order Float 1 1 0 NonFinite (\<lambda>a. Finite 1) 1
          (\<lambda>a. Finite 1) 1 (Finite 2) (\<lambda>a. Finite 1) 4 = Inr s
           \<and> C_writes s = C_reads s
           \<and> (\<forall>i<1. \<forall>j<1. C_mem s (i * 4 + j)
                  = gemm_ref NonFinite (\<lambda>a. Finite 1) 1 (\<lambda>a. Finite 1) 1 (Finite 2) 0 i j (Finite 1)
                \<and> (i, j, i * 4 + j) \<in> C_reads s)"
    by (rule v06_elements) (simp_all add: NUM_VECTOR_UNITS_def race_free_one_tile)
  then obtain s where l: "launch_gemm_kernel_v06_vectorized in_order Float 1 1 0 NonFinite
          (\<lambda>a. Finite 1) 1 (\<lambda>a. Finite 1) 1 (Finite 2) (\<lambda>a. Finite 1) 4 = Inr s"
    and v: "\<forall>i<1. \<forall>j<1. C_mem s (i * 4 + j)
                  = gemm_ref NonFinite (\<lambda>a. Finite 1) 1 (\<lambda>a. Finite 1) 1 (Finite 2) 0 i j (Finite 1)
                \<and> (i, j, i * 4 + j) \<in> C_reads s" by blast
  have "C_mem s 0 = NonFinite"
    using v [rule_format, of 0 0] by (simp add: gemm_ref_def dot_def zero_elem_def)
  then show ?thesis
    unfolding l by (simp add: launch_empty grid_dim_y_def BLOCK_TILE_SIZE_Y_def)
qed

text \<open>
  Claim C7, as amended. Calling either kernel with \<open>alpha = 1\<close> and \<open>beta = 0\<close> leaves
  exactly the product \<open>sum over p < k of A[i][p] * B[p][j]\<close> in every element of \<open>C\<close> whose
  previous value is finite, whatever that value was. This is stated for kernel v06 with
  \<open>ldc\<close> a multiple of the vector width and at least \<open>n\<close>, and for kernel v07 with \<open>m\<close> and
  \<open>n\<close> multiples of 128 and \<open>ldc = n\<close>; for \<open>m\<close> from 1 to 8388480, \<open>n\<close> from 1 to
  \<open>2^32 - 128\<close>, and a single reduction tile or warps that do not overtake each other.
\<close>

theorem unit_alpha_zero_beta:
  assumes "race_free il k"
    and "1 \<le> m" and "m \<le> 8388480" and "1 \<le> n" and "n \<le> 2 ^ 32 - 128"
  shows "(NUM_VECTOR_UNITS T dvd ldc \<and> n \<le> ldc \<longrightarrow>
            (\<exists>s. launch_gemm_kernel_v06_vectorized il T m n k (Finite 1) A lda B ldb (Finite 0) C ldc = Inr s
                 \<and> (\<forall>i<m. \<forall>j<n. C (i * ldc + j) \<noteq> NonFinite
                        \<longrightarrow> C_mem s (i * ldc + j) = dot A lda B ldb k i j)))
       \<and> (128 dvd m \<and> 128 dvd n \<longrightarrow>
            (\<exists>s. launch_gemm_kernel_v07_vectorized il m n k (Finite 1) A lda B ldb (Finite 0) C n = Inr s
                 \<and> (\<forall>i<m. \<forall>j<n. C (i * n + j) \<noteq> NonFinite
                        \<longrightarrow> C_mem s (i * n + j) = dot A lda B ldb k i j)))"
proof -
  have ref: "gemm_ref (Finite 1) A lda B ldb (Finite 0) k i j c = dot A lda B ldb k i j"
    if "c \<noteq> NonFinite" for i j c
    unfolding gemm_ref_def elem_one_times elem_zero_times [OF that] by simp
  have v06: "\<exists>s. launch_gemm_kernel_v06_vectorized il T m n k (Finite 1) A lda B ldb (Finite 0) C ldc = Inr s
                 \<and> (\<forall>i<m. \<forall>j<n. C (i * ldc + j) \<noteq> NonFinite
                        \<longrightarrow> C_mem s (i * ldc + j) = dot A lda B ldb k i j)"
    if "NUM_VECTOR_UNITS T dvd ldc \<and> n \<le> ldc"
  proof -
    from that have al: "NUM_VECTOR_UNITS T dvd ldc" and nl: "n \<le> ldc" by simp_all
    from v06_elements [OF al nl assms, of "Finite 1" A lda B ldb "Finite 0" C]
    show ?thesis using ref by metis
  qed
  have v07: "\<exists>s. launch_gemm_kernel_v07_vectorized il m n k (Finite 1) A lda B ldb (Finite 0) C n = Inr s
                 \<and> (\<forall>i<m. \<forall>j<n. C (i * n + j) \<noteq> NonFinite
                        \<longrightarrow> C_mem s (i * n + j) = dot A lda B ldb k i j)"
    if "128 dvd m \<and> 128 dvd n"
  proof -
    from that have dm: "128 dvd m" and dn: "128 dvd n" by simp_all
    from v07_elements [OF dm dn assms, of "Finite 1" A lda B ldb "Finite 0" C n]
    show ?thesis using ref by metis
  qed
  show ?thesis using v06 v07 by blast
qed

theorem unit_alpha_zero_beta_witness:
  "(case launch_gemm_kernel_v06_vectorized in_order Half 128 128 1 (Finite 1) (\<lambda>a. Finite 2) 128
          (\<lambda>a. Finite 3) 128 (Finite 0) (\<lambda>a. Finite 7) 128 of
     Inl e \<Rightarrow> False | Inr s \<Rightarrow> C_mem s (5 * 128 + 9) = Finite 6)
   \<and> (case launch_gemm_kernel_v07_vectorized in_order 128 128 1 (Finite 1) (\<lambda>a. Finite 2) 128
          (\<lambda>a. Finite 3) 128 (Finite 0) (\<lambda>a. Finite 7) 128 of
     Inl e \<Rightarrow> False | Inr s \<Rightarrow> C_mem s (5 * 128 + 9) = Finite 6)"
proof -
  have rf: "race_free in_order 1" by (rule race_free_one_tile) simp
  have sz: "(1::nat) \<le> 128" "(128::nat) \<le> 8388480" "(128::nat) \<le> 2 ^ 32 - 128" by simp_all
  note d = unit_alpha_zero_beta [OF rf sz(1) sz(2) sz(1) sz(3), of Half 128 "\<lambda>a. Finite 2" 128
      "\<lambda>a. Finite 3" 128 "\<lambda>a. Finite 7"]
  have h6: "NUM_VECTOR_UNITS Half dvd 128 \<and> (128::nat) \<le> 128" by (simp add: NUM_VECTOR_UNITS_def)
  have h7: "(128::nat) dvd 128 \<and> (128::nat) dvd 128" by simp
  have dt: "dot (\<lambda>a. Finite 2) 128 (\<lambda>a. Finite 3) 128 1 5 9 = Finite 6"
    by (simp add: dot_def A_elem_def B_elem_def zero_elem_def)
  from d h6 obtain s6 where l6: "launch_gemm_kernel_v06_vectorized in_order Half 128 128 1 (Finite 1)
          (\<lambda>a. Finite 2) 128 (\<lambda>a. Finite 3) 128 (Finite 0) (\<lambda>a. Finite 7) 128 = Inr s6"
    and v6: "\<forall>i<128. \<forall>j<128. Finite 7 \<noteq> NonFinite \<longrightarrow> C_mem s6 (i * 128 + j)
               = dot (\<lambda>a. Finite 2) 128 (\<lambda>a. Finite 3) 128 1 i j" by blast
  from d h7 obtain s7 where l7: "launch_gemm_kernel_v07_vectorized in_order 128 128 1 (Finite 1)
          (\<lambda>a. Finite 2) 128 (\<lambda>a. Finite 3) 128 (Finite 0) (\<lambda>a. Finite 7) 128 = Inr s7"
    and v7: "\<forall>i<128. \<forall>j<128. Finite 7 \<noteq> NonFinite \<longrightarrow> C_mem s7 (i * 128 + j)
               = dot (\<lambda>a. Finite 2) 128 (\<lambda>a. Finite 3) 128 1 i j" by blast
  have "C_mem s6 (5 * 128 + 9) = Finite 6" using v6 [rule_format, of 5 9] dt by simp
  moreover have "C_mem s7 (5 * 128 + 9) = Finite 6" using v7 [rule_format, of 5 9] dt by simp
  ultimately show ?thesis unfolding l6 l7 by simp
qed

text \<open>
  Claim C7 as stated ("for every prior content of C") fails for a non-finite previous
  value: the write-back computes \<open>alpha * acc + beta * old\<close> with no special case for
  \<open>beta = 0\<close>, and \<open>0 * old\<close> is not finite when \<open>old\<close> is not. With \<open>m = n = k = 1\<close>,
  \<open>A = B = 1\<close> and a non-finite \<open>C[0][0]\<close> the product is 1 and the result is non-finite.
\<close>

theorem nonfinite_C_survives_zero_beta:
  "(case launch_gemm_kernel_v06_vectorized in_order Float 1 1 1 (Finite 1) (\<lambda>a. Finite 1) 1
          (\<lambda>a. Finite 1) 1 (Finite 0) (\<lambda>a. NonFinite) 4 of
     Inl e \<Rightarrow> False | Inr s \<Rightarrow> C_mem s 0 = NonFinite)
   \<and> dot (\<lambda>a. Finite 1) 1 (\<lambda>a. Finite 1) 1 1 0 0 = Finite 1"
proof -
  have "\<exists>s. launch_gemm_kernel_v06_vectorized in_order Float 1 1 1 (Finite 1) (\<lambda>a. Finite 1) 1
          (\<lambda>a. Finite 1) 1 (Finite 0) (\<lambda>a. NonFinite) 4 = Inr s
           \<and> C_writes s = C_reads s
           \<and> (\<forall>i<1. \<forall>j<1. C_mem s (i * 4 + j)
                  = gemm_ref (Finite 1) (\<lambda>a. Finite 1) 1 (\<lambda>a. Finite 1) 1 (Finite 0) 1 i j NonFinite
                \<and> (i, j, i * 4 + j) \<in> C_reads s)"
    by (rule v06_elements) (simp_all add: NUM_VECTOR_UNITS_def race_free_one_tile)
  then obtain s where l: "launch_gemm_kernel_v06_vectorized in_order Float 1 1 1 (Finite 1)
          (\<lambda>a. Finite 1) 1 (\<lambda>a. Finite 1) 1 (Finite 0) (\<lambda>a. NonFinite) 4 = Inr s"
    and v: "\<forall>i<1. \<forall>j<1. C_mem s (i * 4 + j)
                  = gemm_ref (Finite 1) (\<lambda>a. Finite 1) 1 (\<lambda>a. Finite 1) 1 (Finite 0) 1 i j NonFinite
                \<and> (i, j, i * 4 + j) \<in> C_reads s" by blast
  have "C_mem s 0 = NonFinite"
    using v [rule_format, of 0 0] by (simp add: gemm_ref_def elem_plus_nonfinite)
  moreover have "dot (\<lambda>a. Finite 1) 1 (\<lambda>a. Finite 1) 1 1 0 0 = Finite 1"
    by (simp add: dot_def A_elem_def B_elem_def zero_elem_def)
  ultimately show ?thesis unfolding l by simp
qed






end
